theory Spec2Isabelle
  imports Complex_Main "HOL-Library.Sublist"
begin

section \<open>Data model\<close>

text \<open>
  The order lifecycle of the payment service: \<^verbatim>\<open>PaymentService.updateOrderStatus\<close> and
  \<^verbatim>\<open>PaymentService.pollShiftStatus\<close> (payment.service), the webhook handler
  \<^verbatim>\<open>POST /api/webhooks/sideshift\<close> and the sweep \<^verbatim>\<open>monitorPayments\<close>
  (jobs/monitor-payments.ts), over the two collections declared in models/.

  JavaScript values are modelled as follows: a \<^verbatim>\<open>Date\<close> is its \<^verbatim>\<open>getTime()\<close> (an
  integer of milliseconds), a \<^verbatim>\<open>number\<close> is a real (the code only stores these), an
  optional field is an \<open>option\<close>, a thrown error is the \<open>Inl\<close> of a sum.
\<close>

datatype PaymentStatus =
    pending | detecting | processing | settling | completed
  | expired | failed | refunded | underpaid | overpaid

record Item =
  productId :: string
  name :: string
  quantity :: real
  priceUSD :: real

text \<open>One element of \<^verbatim>\<open>statusHistory\<close>: \<^verbatim>\<open>{ status, timestamp, note? }\<close>.\<close>

record StatusEntry =
  h_status :: PaymentStatus
  h_timestamp :: int
  h_note :: "string option"

text \<open>\<^verbatim>\<open>IPaymentOrder\<close>, field by field.\<close>

record IPaymentOrder =
  orderId :: string
  orderNumber :: string
  items :: "Item list"
  totalUSD :: real
  customerEmail :: string
  customerWallet :: "string option"
  quoteId :: "string option"
  shiftId :: "string option"
  depositCoin :: string
  depositNetwork :: string
  depositAddress :: "string option"
  depositAmount :: "string option"
  settleCoin :: string
  settleNetwork :: string
  settleAddress :: string
  settleAmount :: "string option"
  depositTxHash :: "string option"
  settleTxHash :: "string option"
  status :: PaymentStatus
  statusHistory :: "StatusEntry list"
  quoteExpiresAt :: "int option"
  expiryReminderSent :: "bool option"
  exchangeRate :: "real option"
  quotedAt :: "int option"
  ipAddress :: "string option"
  userAgent :: "string option"
  affiliateId :: "string option"
  createdAt :: int
  updatedAt :: int
  completedAt :: "int option"

text \<open>
  The body of a webhook delivery, as far as the handler reads it:
  \<^verbatim>\<open>const { id: shiftId, status, depositHash, settleHash } = body\<close>. A field is absent or
  a string.
\<close>

record Payload =
  body_id :: "string option"
  body_status :: "string option"
  body_depositHash :: "string option"
  body_settleHash :: "string option"

text \<open>\<^verbatim>\<open>IWebhookEvent\<close>.\<close>

record IWebhookEvent =
  ev_eventId :: string
  ev_eventType :: string
  ev_shiftId :: "string option"
  ev_orderId :: "string option"
  ev_payload :: Payload
  ev_headers :: "(string \<times> string) list"
  ev_processed :: bool
  ev_processedAt :: "int option"
  ev_processingError :: "string option"
  ev_retryCount :: nat
  ev_receivedAt :: int
  ev_sourceIP :: "string option"

text \<open>The optional third argument of \<^verbatim>\<open>updateOrderStatus\<close>.\<close>

record Metadata =
  md_depositTxHash :: "string option"
  md_settleTxHash :: "string option"
  md_note :: "string option"

text \<open>
  Errors that the code throws or that its collaborators reject with.
  \<open>OrderNotFound\<close> is \<^verbatim>\<open>Error(`Order ${orderId} not found`)\<close>, \<open>OrderNotFoundOrNoShift\<close> is
  \<^verbatim>\<open>Error(`Order ${orderId} not found or has no shiftId`)\<close>, \<open>StorageError\<close> is a rejected
  database operation, \<open>ProviderError\<close> a failed request to the exchange service and
  \<open>ZodError\<close> a response that \<^verbatim>\<open>ShiftStatusSchema.parse\<close> refuses, and \<open>SyntaxError\<close> a
  request body that \<^verbatim>\<open>request.json()\<close> cannot read as an object.
\<close>

datatype error =
    OrderNotFound string
  | OrderNotFoundOrNoShift string
  | StorageError
  | ProviderError
  | ZodError
  | SyntaxError

text \<open>The part of the exchange service's answer to \<^verbatim>\<open>GET /shifts/:id\<close> that the code reads.\<close>

record ShiftData =
  shift_status :: string
  shift_depositHash :: "string option"
  shift_settleHash :: "string option"

text \<open>
  What the code does besides writing the two collections, where a property observes it:
  the completion hook \<^verbatim>\<open>handleOrderCompletion\<close>, and the lines the monitor and the webhook
  handler print about an item.
\<close>

datatype effect =
    OrderCompleted string
  | MonitorMarkedExpired string
  | MonitorReminder string
  | MonitorPolled string
  | MonitorPollFailed string error
  | WebhookError error

section \<open>The environment\<close>

text \<open>
  Everything the code asks of the outside is an oracle indexed by the number of
  questions asked so far (\<open>steps\<close>): the clock behind \<^verbatim>\<open>new Date()\<close>, whether the database
  rejects the next operation (a lost connection, a failed validation, a violated unique
  index), the next \<^verbatim>\<open>nanoid()\<close> and the exchange service's answer. A property proved for
  every environment holds for every interleaving of such answers.
\<close>

record env =
  clock :: "nat \<Rightarrow> int"
  dbFault :: "nat \<Rightarrow> bool"
  nanoid :: "nat \<Rightarrow> string"
  shiftsApi :: "nat \<Rightarrow> string \<Rightarrow> error + ShiftData"

record world =
  paymentOrders :: "IPaymentOrder list"
  webhookEvents :: "IWebhookEvent list"
  trace :: "effect list"
  steps :: nat

definition tick :: "world \<Rightarrow> world" where
  "tick w = w\<lparr>steps := Suc (steps w)\<rparr>"

definition emit :: "effect \<Rightarrow> world \<Rightarrow> world" where
  "emit e w = w\<lparr>trace := trace w @ [e]\<rparr>"

definition newDate :: "env \<Rightarrow> world \<Rightarrow> int \<times> world" where
  "newDate E w = (clock E (steps w), tick w)"

text \<open>A JavaScript string used as a condition: absent and empty are both falsy.\<close>

fun truthy :: "string option \<Rightarrow> bool" where
  "truthy None = False"
| "truthy (Some s) = (s \<noteq> [])"

section \<open>The order collection\<close>

definition connectDB :: "env \<Rightarrow> world \<Rightarrow> (error + unit) \<times> world" where
  "connectDB E w = (if dbFault E (steps w) then Inl StorageError else Inr (), tick w)"

text \<open>\<^verbatim>\<open>PaymentOrder.findOne({ orderId })\<close> and \<^verbatim>\<open>PaymentOrder.findOne({ shiftId })\<close>.\<close>

definition findOne_orderId :: "env \<Rightarrow> string \<Rightarrow> world \<Rightarrow> (error + IPaymentOrder option) \<times> world" where
  "findOne_orderId E oid w =
     (if dbFault E (steps w) then Inl StorageError
      else Inr (find (\<lambda>d. orderId d = oid) (paymentOrders w)), tick w)"

definition findOne_shiftId :: "env \<Rightarrow> string \<Rightarrow> world \<Rightarrow> (error + IPaymentOrder option) \<times> world" where
  "findOne_shiftId E sid w =
     (if dbFault E (steps w) then Inl StorageError
      else Inr (find (\<lambda>d. shiftId d = Some sid) (paymentOrders w)), tick w)"

text \<open>\<^verbatim>\<open>PaymentOrder.find(query)\<close>.\<close>

definition find_orders :: "env \<Rightarrow> (IPaymentOrder \<Rightarrow> bool) \<Rightarrow> world \<Rightarrow> (error + IPaymentOrder list) \<times> world" where
  "find_orders E q w =
     (if dbFault E (steps w) then Inl StorageError
      else Inr (filter q (paymentOrders w)), tick w)"

text \<open>
  \<^verbatim>\<open>order.save()\<close>. The stored document is the one the in-memory document was loaded
  from, found here by its unique, never reassigned \<open>orderId\<close>. The schema is declared with
  \<^verbatim>\<open>{ timestamps: true }\<close>, so a save that goes through also refreshes \<open>updatedAt\<close>; the
  monitor's stuck-order query reads that field.
\<close>

fun replaceOrder :: "IPaymentOrder \<Rightarrow> IPaymentOrder list \<Rightarrow> IPaymentOrder list" where
  "replaceOrder d [] = []"
| "replaceOrder d (x # xs) = (if orderId x = orderId d then d # xs else x # replaceOrder d xs)"

definition save :: "env \<Rightarrow> IPaymentOrder \<Rightarrow> world \<Rightarrow> (error + IPaymentOrder) \<times> world" where
  "save E d w =
     (let (t, w1) = newDate E w in
      if dbFault E (steps w1) then (Inl StorageError, tick w1)
      else (let d' = d\<lparr>updatedAt := t\<rparr>
            in (Inr d', (tick w1)\<lparr>paymentOrders := replaceOrder d' (paymentOrders w1)\<rparr>)))"

section \<open>PaymentService.updateOrderStatus\<close>

text \<open>The guard \<^verbatim>\<open>['completed', 'refunded', 'expired'].includes(order.status)\<close>.\<close>

definition inTerminalState :: "IPaymentOrder \<Rightarrow> bool" where
  "inTerminalState d = (status d \<in> set [completed, refunded, expired])"

text \<open>\<^verbatim>\<open>handleOrderCompletion\<close> only prints; the trace records that it ran.\<close>

definition handleOrderCompletion :: "IPaymentOrder \<Rightarrow> world \<Rightarrow> world" where
  "handleOrderCompletion d w = emit (OrderCompleted (orderId d)) w"

text \<open>
  The assignments between the guard and \<^verbatim>\<open>order.save()\<close>, given the two clock readings
  (\<open>t1\<close> for the history entry, \<open>t2\<close> for \<open>completedAt\<close>).
\<close>

definition md_get :: "(Metadata \<Rightarrow> string option) \<Rightarrow> Metadata option \<Rightarrow> string option" where
  "md_get f m = (case m of None \<Rightarrow> None | Some x \<Rightarrow> f x)"

definition assignStatus :: "PaymentStatus \<Rightarrow> Metadata option \<Rightarrow> int \<Rightarrow> int \<Rightarrow> IPaymentOrder \<Rightarrow> IPaymentOrder" where
  "assignStatus newStatus metadata t1 t2 d =
     (let d1 = d\<lparr>status := newStatus,
                  statusHistory := statusHistory d @
                    [\<lparr>h_status = newStatus, h_timestamp = t1, h_note = md_get md_note metadata\<rparr>]\<rparr>;
          d2 = (if truthy (md_get md_depositTxHash metadata)
                then d1\<lparr>depositTxHash := md_get md_depositTxHash metadata\<rparr> else d1);
          d3 = (if truthy (md_get md_settleTxHash metadata)
                then d2\<lparr>settleTxHash := md_get md_settleTxHash metadata\<rparr> else d2)
      in if newStatus = completed then d3\<lparr>completedAt := Some t2\<rparr> else d3)"

definition updateOrderStatus ::
  "env \<Rightarrow> string \<Rightarrow> PaymentStatus \<Rightarrow> Metadata option \<Rightarrow> world \<Rightarrow> (error + IPaymentOrder) \<times> world" where
  "updateOrderStatus E oid newStatus metadata w =
     (case connectDB E w of
        (Inl e, w1) \<Rightarrow> (Inl e, w1)
      | (Inr _, w1) \<Rightarrow>
     (case findOne_orderId E oid w1 of
        (Inl e, w2) \<Rightarrow> (Inl e, w2)
      | (Inr None, w2) \<Rightarrow> (Inl (OrderNotFound oid), w2)
      | (Inr (Some order), w2) \<Rightarrow>
          if inTerminalState order then (Inr order, w2)
          else
            (let (t1, w3) = newDate E w2;
                 (t2, w4) = (if newStatus = completed then newDate E w3 else (t1, w3))
             in case save E (assignStatus newStatus metadata t1 t2 order) w4 of
                  (Inl e, w5) \<Rightarrow> (Inl e, w5)
                | (Inr saved, w5) \<Rightarrow>
                    (Inr saved,
                     if newStatus = completed then handleOrderCompletion saved w5 else w5))))"

section \<open>PaymentService.pollShiftStatus\<close>

text \<open>
  The object literal \<^verbatim>\<open>statusMap\<close>, the same in the poll and in the webhook handler, read
  at a string as its declared type \<^verbatim>\<open>Record<string, PaymentStatus>\<close> says: the eight keys
  give a status, any other string gives \<^verbatim>\<open>undefined\<close>.
\<close>

definition statusMap :: "string \<Rightarrow> PaymentStatus option" where
  "statusMap = map_of
     [(''waiting'', pending),
      (''pending'', detecting),
      (''processing'', processing),
      (''settling'', settling),
      (''settled'', completed),
      (''refund'', failed),
      (''refunded'', refunded),
      (''expired'', expired)]"

text \<open>
  \<^verbatim>\<open>ShiftStatusSchema.parse\<close> (lib/sideshift.ts): \<open>status\<close> is a \<^verbatim>\<open>z.enum\<close> of eight
  strings, and a response with any other status is rejected.
\<close>

definition ShiftStatusSchema_parse :: "ShiftData \<Rightarrow> error + ShiftData" where
  "ShiftStatusSchema_parse x =
     (if shift_status x \<in> set [''waiting'', ''pending'', ''processing'', ''settling'',
                                 ''settled'', ''refund'', ''refunded'', ''expired'']
      then Inr x else Inl ZodError)"

definition getShiftStatus :: "env \<Rightarrow> string \<Rightarrow> world \<Rightarrow> (error + ShiftData) \<times> world" where
  "getShiftStatus E sid w =
     (case shiftsApi E (steps w) sid of
        Inl e \<Rightarrow> Inl e
      | Inr x \<Rightarrow> ShiftStatusSchema_parse x, tick w)"

definition pollShiftStatus :: "env \<Rightarrow> string \<Rightarrow> world \<Rightarrow> (error + IPaymentOrder) \<times> world" where
  "pollShiftStatus E oid w =
     (case connectDB E w of
        (Inl e, w1) \<Rightarrow> (Inl e, w1)
      | (Inr _, w1) \<Rightarrow>
     (case findOne_orderId E oid w1 of
        (Inl e, w2) \<Rightarrow> (Inl e, w2)
      | (Inr None, w2) \<Rightarrow> (Inl (OrderNotFoundOrNoShift oid), w2)
      | (Inr (Some order), w2) \<Rightarrow>
     (case shiftId order of
        None \<Rightarrow> (Inl (OrderNotFoundOrNoShift oid), w2)
      | Some sid \<Rightarrow>
          if sid = [] then (Inl (OrderNotFoundOrNoShift oid), w2)
          else
     (case getShiftStatus E sid w2 of
        (Inl e, w3) \<Rightarrow> (Inl e, w3)
      | (Inr shiftStatus, w3) \<Rightarrow>
          (let newStatus = (case statusMap (shift_status shiftStatus) of
                              Some s \<Rightarrow> s | None \<Rightarrow> pending)
           in updateOrderStatus E oid newStatus
                (Some \<lparr>md_depositTxHash = shift_depositHash shiftStatus,
                       md_settleTxHash = shift_settleHash shiftStatus,
                       md_note = Some (''SideShift status: '' @ shift_status shiftStatus)\<rparr>)
                w3)))))"

section \<open>POST /api/webhooks/sideshift\<close>

record Request =
  req_body :: "Payload option"
  req_headers :: "(string \<times> string) list"

record Response =
  http_status :: nat
  res_success :: "bool option"
  res_error :: "string option"

text \<open>\<^verbatim>\<open>a || b\<close> on an optional string.\<close>

definition orElse :: "string option \<Rightarrow> string \<Rightarrow> string" where
  "orElse a b = (case a of None \<Rightarrow> b | Some s \<Rightarrow> if s = [] then b else s)"

definition sourceIP_of :: "(string \<times> string) list \<Rightarrow> string" where
  "sourceIP_of hs =
     orElse (map_of hs ''x-forwarded-for'') (orElse (map_of hs ''x-real-ip'') ''unknown'')"

text \<open>\<^verbatim>\<open>WebhookEvent.create\<close> and \<^verbatim>\<open>WebhookEvent.findOneAndUpdate({ eventId }, update)\<close>.\<close>

definition WebhookEvent_create :: "env \<Rightarrow> IWebhookEvent \<Rightarrow> world \<Rightarrow> (error + unit) \<times> world" where
  "WebhookEvent_create E ev w =
     (if dbFault E (steps w) then (Inl StorageError, tick w)
      else (Inr (), (tick w)\<lparr>webhookEvents := webhookEvents w @ [ev]\<rparr>))"

fun updateFirst :: "('a \<Rightarrow> bool) \<Rightarrow> ('a \<Rightarrow> 'a) \<Rightarrow> 'a list \<Rightarrow> 'a list" where
  "updateFirst p f [] = []"
| "updateFirst p f (x # xs) = (if p x then f x # xs else x # updateFirst p f xs)"

definition WebhookEvent_findOneAndUpdate ::
  "env \<Rightarrow> string \<Rightarrow> (IWebhookEvent \<Rightarrow> IWebhookEvent) \<Rightarrow> world \<Rightarrow> (error + unit) \<times> world" where
  "WebhookEvent_findOneAndUpdate E eid f w =
     (if dbFault E (steps w) then (Inl StorageError, tick w)
      else (Inr (), (tick w)\<lparr>webhookEvents :=
              updateFirst (\<lambda>e. ev_eventId e = eid) f (webhookEvents w)\<rparr>))"

definition invalidPayload :: Response where
  "invalidPayload = \<lparr>http_status = 400, res_success = None, res_error = Some ''Invalid payload''\<rparr>"

definition orderNotFound :: Response where
  "orderNotFound = \<lparr>http_status = 404, res_success = Some False, res_error = Some ''Order not found''\<rparr>"

definition acknowledged :: Response where
  "acknowledged = \<lparr>http_status = 200, res_success = Some True, res_error = None\<rparr>"

definition processingError :: Response where
  "processingError = \<lparr>http_status = 200, res_success = Some False, res_error = Some ''Processing error''\<rparr>"

text \<open>\<^verbatim>\<open>statusMap[status]\<close>, where an absent status reads the key \<^verbatim>\<open>undefined\<close>.\<close>

definition statusMap_at :: "string option \<Rightarrow> PaymentStatus option" where
  "statusMap_at st = (case st of None \<Rightarrow> statusMap ''undefined'' | Some s \<Rightarrow> statusMap s)"

definition show_status :: "string option \<Rightarrow> string" where
  "show_status st = (case st of None \<Rightarrow> ''undefined'' | Some s \<Rightarrow> s)"

text \<open>
  The document handed to \<^verbatim>\<open>WebhookEvent.create\<close>; fields the call does not give are
  absent or take the schema's default (\<open>retryCount\<close> 0).
\<close>

definition newWebhookEvent ::
  "string \<Rightarrow> string \<Rightarrow> Payload \<Rightarrow> (string \<times> string) list \<Rightarrow> int \<Rightarrow> IWebhookEvent" where
  "newWebhookEvent eventId sid body hs receivedAt =
     \<lparr>ev_eventId = eventId,
      ev_eventType = ''shift.'' @ show_status (body_status body),
      ev_shiftId = Some sid,
      ev_orderId = None,
      ev_payload = body,
      ev_headers = hs,
      ev_processed = False,
      ev_processedAt = None,
      ev_processingError = None,
      ev_retryCount = 0,
      ev_receivedAt = receivedAt,
      ev_sourceIP = Some (sourceIP_of hs)\<rparr>"

text \<open>The metadata that the handler passes to \<^verbatim>\<open>updateOrderStatus\<close>.\<close>

definition webhookMetadata :: "Payload \<Rightarrow> Metadata option" where
  "webhookMetadata body =
     Some \<lparr>md_depositTxHash = body_depositHash body,
           md_settleTxHash = body_settleHash body,
           md_note = Some (''Webhook: '' @ show_status (body_status body))\<rparr>"

text \<open>The body of the \<^verbatim>\<open>try\<close> block.\<close>

definition POST_try :: "env \<Rightarrow> Request \<Rightarrow> world \<Rightarrow> (error + Response) \<times> world" where
  "POST_try E request w =
     (case connectDB E w of
        (Inl e, w1) \<Rightarrow> (Inl e, w1)
      | (Inr _, w1) \<Rightarrow>
     (case req_body request of
        None \<Rightarrow> (Inl SyntaxError, w1)
      | Some body \<Rightarrow>
     (case body_id body of
        None \<Rightarrow> (Inr invalidPayload, w1)
      | Some sid \<Rightarrow>
          if sid = [] then (Inr invalidPayload, w1)
          else
     (let eventId = nanoid E (steps w1);
          (receivedAt, w2) = newDate E (tick w1)
      in
     (case WebhookEvent_create E
             (newWebhookEvent eventId sid body (req_headers request) receivedAt) w2 of
        (Inl e, w3) \<Rightarrow> (Inl e, w3)
      | (Inr _, w3) \<Rightarrow>
     (case findOne_shiftId E sid w3 of
        (Inl e, w4) \<Rightarrow> (Inl e, w4)
      | (Inr None, w4) \<Rightarrow>
          (let (processedAt, w5) = newDate E w4
           in case WebhookEvent_findOneAndUpdate E eventId
                     (\<lambda>ev. ev\<lparr>ev_processed := True, ev_processedAt := Some processedAt,
                               ev_processingError := Some ''Order not found''\<rparr>) w5 of
                (Inl e, w6) \<Rightarrow> (Inl e, w6)
              | (Inr _, w6) \<Rightarrow> (Inr orderNotFound, w6))
      | (Inr (Some order), w4) \<Rightarrow>
     (case statusMap_at (body_status body) of
        None \<Rightarrow> (Inr acknowledged, w4)
      | Some newStatus \<Rightarrow>
     (case updateOrderStatus E (orderId order) newStatus (webhookMetadata body) w4 of
        (Inl e, w5) \<Rightarrow> (Inl e, w5)
      | (Inr _, w5) \<Rightarrow>
          (let (processedAt, w6) = newDate E w5
           in case WebhookEvent_findOneAndUpdate E eventId
                     (\<lambda>ev. ev\<lparr>ev_processed := True, ev_processedAt := Some processedAt,
                               ev_orderId := Some (orderId order)\<rparr>) w6 of
                (Inl e, w7) \<Rightarrow> (Inl e, w7)
              | (Inr _, w7) \<Rightarrow> (Inr acknowledged, w7))))))))))"

text \<open>The handler: the \<^verbatim>\<open>catch\<close> block prints the error and answers 200.\<close>

definition POST :: "env \<Rightarrow> Request \<Rightarrow> world \<Rightarrow> Response \<times> world" where
  "POST E request w =
     (case POST_try E request w of
        (Inl e, w') \<Rightarrow> (processingError, emit (WebhookError e) w')
      | (Inr response, w') \<Rightarrow> (response, w'))"

section \<open>monitorPayments\<close>

text \<open>The four queries, with \<open>now\<close> the instant the sweep read at its start.\<close>

definition expiredPendingQuery :: "int \<Rightarrow> IPaymentOrder \<Rightarrow> bool" where
  "expiredPendingQuery now d =
     (status d = pending \<and>
      (case quoteExpiresAt d of None \<Rightarrow> False | Some q \<Rightarrow> q < now) \<and>
      depositTxHash d = None)"

definition expiringSoonQuery :: "int \<Rightarrow> IPaymentOrder \<Rightarrow> bool" where
  "expiringSoonQuery now d =
     (status d = pending \<and>
      (case quoteExpiresAt d of None \<Rightarrow> False | Some q \<Rightarrow> q < now + 2 * 60 * 1000 \<and> q > now) \<and>
      expiryReminderSent d \<noteq> Some True \<and>
      depositTxHash d = None)"

definition abandonedQuery :: "int \<Rightarrow> IPaymentOrder \<Rightarrow> bool" where
  "abandonedQuery now d =
     (status d = pending \<and>
      createdAt d < now - 24 * 60 * 60 * 1000 \<and>
      depositTxHash d = None)"

definition stuckQuery :: "int \<Rightarrow> IPaymentOrder \<Rightarrow> bool" where
  "stuckQuery now d =
     (status d \<in> set [detecting, processing, settling] \<and>
      updatedAt d < now - 60 * 60 * 1000)"

definition expiredNote :: Metadata where
  "expiredNote = \<lparr>md_depositTxHash = None, md_settleTxHash = None,
                   md_note = Some ''Quote expired without deposit''\<rparr>"

definition abandonedNote :: Metadata where
  "abandonedNote = \<lparr>md_depositTxHash = None, md_settleTxHash = None,
                     md_note = Some ''Abandoned - 24 hours without deposit''\<rparr>"

text \<open>The four \<^verbatim>\<open>for\<close> loops. Only the last one has a \<^verbatim>\<open>try\<close> around its body.\<close>

fun expiredPendingLoop :: "env \<Rightarrow> IPaymentOrder list \<Rightarrow> world \<Rightarrow> (error + unit) \<times> world" where
  "expiredPendingLoop E [] w = (Inr (), w)"
| "expiredPendingLoop E (order # rest) w =
     (case updateOrderStatus E (orderId order) expired (Some expiredNote) w of
        (Inl e, w1) \<Rightarrow> (Inl e, w1)
      | (Inr _, w1) \<Rightarrow> expiredPendingLoop E rest (emit (MonitorMarkedExpired (orderId order)) w1))"

fun expiringSoonLoop :: "env \<Rightarrow> IPaymentOrder list \<Rightarrow> world \<Rightarrow> (error + unit) \<times> world" where
  "expiringSoonLoop E [] w = (Inr (), w)"
| "expiringSoonLoop E (order # rest) w =
     (case save E (order\<lparr>expiryReminderSent := Some True\<rparr>)
             (emit (MonitorReminder (orderId order)) w) of
        (Inl e, w1) \<Rightarrow> (Inl e, w1)
      | (Inr _, w1) \<Rightarrow> expiringSoonLoop E rest w1)"

fun abandonedLoop :: "env \<Rightarrow> IPaymentOrder list \<Rightarrow> world \<Rightarrow> (error + unit) \<times> world" where
  "abandonedLoop E [] w = (Inr (), w)"
| "abandonedLoop E (order # rest) w =
     (case updateOrderStatus E (orderId order) expired (Some abandonedNote) w of
        (Inl e, w1) \<Rightarrow> (Inl e, w1)
      | (Inr _, w1) \<Rightarrow> abandonedLoop E rest w1)"

fun stuckLoop :: "env \<Rightarrow> IPaymentOrder list \<Rightarrow> world \<Rightarrow> world" where
  "stuckLoop E [] w = w"
| "stuckLoop E (order # rest) w =
     (if \<not> truthy (shiftId order) then stuckLoop E rest w
      else (case pollShiftStatus E (orderId order) w of
              (Inl e, w1) \<Rightarrow> stuckLoop E rest (emit (MonitorPollFailed (orderId order) e) w1)
            | (Inr _, w1) \<Rightarrow> stuckLoop E rest (emit (MonitorPolled (orderId order)) w1)))"

record Summary =
  n_expiredPending :: nat
  n_expiringSoon :: nat
  n_abandonedOrders :: nat
  n_stuckPayments :: nat

text \<open>
  The four numbered parts of the sweep, each a query followed by its loop; the value is
  the length of the list that the query returned.
\<close>

definition sweepExpiredPending :: "env \<Rightarrow> int \<Rightarrow> world \<Rightarrow> (error + nat) \<times> world" where
  "sweepExpiredPending E now w =
     (case find_orders E (expiredPendingQuery now) w of
        (Inl e, w1) \<Rightarrow> (Inl e, w1)
      | (Inr expiredPending, w1) \<Rightarrow>
     (case expiredPendingLoop E expiredPending w1 of
        (Inl e, w2) \<Rightarrow> (Inl e, w2)
      | (Inr _, w2) \<Rightarrow> (Inr (length expiredPending), w2)))"

definition sweepExpiringSoon :: "env \<Rightarrow> int \<Rightarrow> world \<Rightarrow> (error + nat) \<times> world" where
  "sweepExpiringSoon E now w =
     (case find_orders E (expiringSoonQuery now) w of
        (Inl e, w1) \<Rightarrow> (Inl e, w1)
      | (Inr expiringSoon, w1) \<Rightarrow>
     (case expiringSoonLoop E expiringSoon w1 of
        (Inl e, w2) \<Rightarrow> (Inl e, w2)
      | (Inr _, w2) \<Rightarrow> (Inr (length expiringSoon), w2)))"

definition sweepAbandoned :: "env \<Rightarrow> int \<Rightarrow> world \<Rightarrow> (error + nat) \<times> world" where
  "sweepAbandoned E now w =
     (case find_orders E (abandonedQuery now) w of
        (Inl e, w1) \<Rightarrow> (Inl e, w1)
      | (Inr abandonedOrders, w1) \<Rightarrow>
     (case abandonedLoop E abandonedOrders w1 of
        (Inl e, w2) \<Rightarrow> (Inl e, w2)
      | (Inr _, w2) \<Rightarrow> (Inr (length abandonedOrders), w2)))"

definition sweepStuck :: "env \<Rightarrow> int \<Rightarrow> world \<Rightarrow> (error + nat) \<times> world" where
  "sweepStuck E now w =
     (case find_orders E (stuckQuery now) w of
        (Inl e, w1) \<Rightarrow> (Inl e, w1)
      | (Inr stuckPayments, w1) \<Rightarrow>
          (Inr (length stuckPayments), stuckLoop E stuckPayments w1))"

definition monitorPayments :: "env \<Rightarrow> world \<Rightarrow> (error + Summary) \<times> world" where
  "monitorPayments E w =
     (case connectDB E w of
        (Inl e, w1) \<Rightarrow> (Inl e, w1)
      | (Inr _, w1) \<Rightarrow>
     (let (now, w2) = newDate E w1 in
     (case sweepExpiredPending E now w2 of
        (Inl e, w3) \<Rightarrow> (Inl e, w3)
      | (Inr expiredPending, w3) \<Rightarrow>
     (case sweepExpiringSoon E now w3 of
        (Inl e, w4) \<Rightarrow> (Inl e, w4)
      | (Inr expiringSoon, w4) \<Rightarrow>
     (case sweepAbandoned E now w4 of
        (Inl e, w5) \<Rightarrow> (Inl e, w5)
      | (Inr abandonedOrders, w5) \<Rightarrow>
     (case sweepStuck E now w5 of
        (Inl e, w6) \<Rightarrow> (Inl e, w6)
      | (Inr stuckPayments, w6) \<Rightarrow>
          (Inr \<lparr>n_expiredPending = expiredPending,
                n_expiringSoon = expiringSoon,
                n_abandonedOrders = abandonedOrders,
                n_stuckPayments = stuckPayments\<rparr>, w6)))))))"

section \<open>Notions used by the properties, and sample data\<close>

text \<open>
  Two orders agree outside the fields that \<^verbatim>\<open>updateOrderStatus\<close> assigns and the
  \<open>updatedAt\<close> stamp that a save refreshes.
\<close>

definition untouched_fields :: "IPaymentOrder \<Rightarrow> IPaymentOrder \<Rightarrow> bool" where
  "untouched_fields a b =
     (b\<lparr>status := status a, statusHistory := statusHistory a,
        depositTxHash := depositTxHash a, settleTxHash := settleTxHash a,
        completedAt := completedAt a, updatedAt := updatedAt a\<rparr> = a)"

text \<open>
  An order as \<^verbatim>\<open>createPayment\<close> stores it, and an environment in which the database
  rejects nothing, every \<^verbatim>\<open>nanoid()\<close> is new and the exchange service fails every request.
\<close>

definition order1 :: IPaymentOrder where
  "order1 =
     \<lparr>orderId = ''ord_1'', orderNumber = ''ORD-1'',
      items = [\<lparr>productId = ''p1'', name = ''Widget'', quantity = 1, priceUSD = 25\<rparr>],
      totalUSD = 25, customerEmail = ''a@example.com'', customerWallet = None,
      quoteId = Some ''quote_1'', shiftId = Some ''shift_1'',
      depositCoin = ''btc'', depositNetwork = ''mainnet'',
      depositAddress = Some ''bc1q'', depositAmount = Some ''0.001'',
      settleCoin = ''usdc'', settleNetwork = ''arbitrum'', settleAddress = ''0xabc'',
      settleAmount = Some ''25'',
      depositTxHash = None, settleTxHash = None,
      status = pending,
      statusHistory = [\<lparr>h_status = pending, h_timestamp = 1000,
                        h_note = Some ''Payment created, waiting for deposit''\<rparr>],
      quoteExpiresAt = Some 601000, expiryReminderSent = Some False,
      exchangeRate = Some 25000, quotedAt = Some 1000,
      ipAddress = None, userAgent = None, affiliateId = None,
      createdAt = 1000, updatedAt = 1000, completedAt = None\<rparr>"

definition env0 :: env where
  "env0 = \<lparr>clock = (\<lambda>n. 700000 + int n), dbFault = (\<lambda>n. False),
           nanoid = (\<lambda>n. ''evt'' @ replicate n (CHR ''x'')),
           shiftsApi = (\<lambda>n sid. Inl ProviderError)\<rparr>"

definition world_of :: "IPaymentOrder list \<Rightarrow> world" where
  "world_of ds = \<lparr>paymentOrders = ds, webhookEvents = [], trace = [], steps = 0\<rparr>"

text \<open>
  A webhook delivery with the given correlation id and status, an environment whose
  database rejects exactly the operation asked at step \<open>k\<close>, and one whose exchange
  service reports the given status for every shift.
\<close>

definition request_of :: "string option \<Rightarrow> string option \<Rightarrow> Request" where
  "request_of i st =
     \<lparr>req_body = Some \<lparr>body_id = i, body_status = st,
                        body_depositHash = None, body_settleHash = None\<rparr>,
      req_headers = []\<rparr>"

definition env_failing_at :: "nat \<Rightarrow> env" where
  "env_failing_at k = env0\<lparr>dbFault := (\<lambda>n. n = k)\<rparr>"


text \<open>
  Counting completions: the number of times the completion hook ran for an order, and the
  number of \<open>completed\<close> entries in an order's history. An order is \<open>completedOnce\<close> when
  both numbers are 1 if it is completed and 0 otherwise, and its completion time is set
  exactly when it is completed. A world is \<open>consistent\<close> when order ids are unique (the
  schema's unique index) and every order is completed once; this is how \<^verbatim>\<open>createPayment\<close>
  leaves the collection (lemma \<open>fresh_consistent\<close>).
\<close>

definition hooks :: "effect list \<Rightarrow> string \<Rightarrow> nat" where
  "hooks tr oid = length (filter (\<lambda>e. e = OrderCompleted oid) tr)"

definition completions :: "IPaymentOrder \<Rightarrow> nat" where
  "completions d = length (filter (\<lambda>e. h_status e = completed) (statusHistory d))"

definition completedOnce :: "effect list \<Rightarrow> IPaymentOrder \<Rightarrow> bool" where
  "completedOnce tr d \<longleftrightarrow>
     completions d = (if status d = completed then 1 else 0) \<and>
     hooks tr (orderId d) = completions d \<and>
     (completedAt d \<noteq> None) = (status d = completed)"

definition consistent :: "world \<Rightarrow> bool" where
  "consistent w \<longleftrightarrow>
     distinct (map orderId (paymentOrders w)) \<and>
     list_all (completedOnce (trace w)) (paymentOrders w)"

text \<open>
  How the two observable parts of a world, the order collection and the trace, can change
  while the code runs: not at all; by the assignment of \<^verbatim>\<open>updateOrderStatus\<close> saved over the
  loaded order (with the hook, if the new status is \<open>completed\<close>); by the monitor's reminder
  flag saved over a pending order; by printing an effect that \<open>P\<close> admits. Every
  operation below is shown to stay within this relation.
\<close>

inductive evolves :: "(effect \<Rightarrow> bool) \<Rightarrow> world \<Rightarrow> world \<Rightarrow> bool" for P where
  same: "paymentOrders w' = paymentOrders w \<Longrightarrow> trace w' = trace w \<Longrightarrow> evolves P w w'"
| updated: "evolves P w v \<Longrightarrow>
     find (\<lambda>x. orderId x = oid) (paymentOrders v) = Some d \<Longrightarrow> \<not> inTerminalState d \<Longrightarrow>
     paymentOrders w' =
       replaceOrder ((assignStatus s m t1 t2 d)\<lparr>updatedAt := t3\<rparr>) (paymentOrders v) \<Longrightarrow>
     trace w' = trace v @ (if s = completed then [OrderCompleted oid] else []) \<Longrightarrow>
     evolves P w w'"
| reminded: "evolves P w v \<Longrightarrow>
     find (\<lambda>x. orderId x = orderId d) (paymentOrders v) = Some d \<Longrightarrow> status d = pending \<Longrightarrow>
     paymentOrders w' =
       replaceOrder (d\<lparr>expiryReminderSent := Some True, updatedAt := t\<rparr>) (paymentOrders v) \<Longrightarrow>
     trace w' = trace v \<Longrightarrow>
     evolves P w w'"
| emitted: "evolves P w v \<Longrightarrow> P e \<Longrightarrow>
     paymentOrders w' = paymentOrders v \<Longrightarrow> trace w' = trace v @ [e] \<Longrightarrow>
     evolves P w w'"

text \<open>The effects that the monitor prints, and the completion hook's.\<close>

fun monitorEffect :: "effect \<Rightarrow> bool" where
  "monitorEffect (MonitorMarkedExpired _) = True"
| "monitorEffect (MonitorReminder _) = True"
| "monitorEffect (MonitorPolled _) = True"
| "monitorEffect (MonitorPollFailed _ _) = True"
| "monitorEffect _ = False"

fun isCompletion :: "effect \<Rightarrow> bool" where
  "isCompletion (OrderCompleted _) = True"
| "isCompletion _ = False"

text \<open>The operations that reach the reconciler, and a run of them, one after the other.\<close>

datatype operation =
    Update string PaymentStatus "Metadata option"
  | Poll string
  | Webhook Request
  | Sweep

fun perform :: "env \<Rightarrow> operation \<Rightarrow> world \<Rightarrow> world" where
  "perform E (Update oid s m) w = snd (updateOrderStatus E oid s m w)"
| "perform E (Poll oid) w = snd (pollShiftStatus E oid w)"
| "perform E (Webhook request) w = snd (POST E request w)"
| "perform E Sweep w = snd (monitorPayments E w)"

fun performAll :: "env \<Rightarrow> operation list \<Rightarrow> world \<Rightarrow> world" where
  "performAll E [] w = w"
| "performAll E (x # xs) w = performAll E xs (perform E x w)"

text \<open>
  The second to fourth part of \<^verbatim>\<open>monitorPayments\<close>, after the first returned the length
  \<open>expiredPending\<close> (lemma \<open>monitorPayments_unfold\<close>).
\<close>

definition sweepRest :: "env \<Rightarrow> int \<Rightarrow> nat \<Rightarrow> world \<Rightarrow> (error + Summary) \<times> world" where
  "sweepRest E now expiredPending w3 =
     (case sweepExpiringSoon E now w3 of
        (Inl e, w4) \<Rightarrow> (Inl e, w4)
      | (Inr expiringSoon, w4) \<Rightarrow>
     (case sweepAbandoned E now w4 of
        (Inl e, w5) \<Rightarrow> (Inl e, w5)
      | (Inr abandonedOrders, w5) \<Rightarrow>
     (case sweepStuck E now w5 of
        (Inl e, w6) \<Rightarrow> (Inl e, w6)
      | (Inr stuckPayments, w6) \<Rightarrow>
          (Inr \<lparr>n_expiredPending = expiredPending,
                n_expiringSoon = expiringSoon,
                n_abandonedOrders = abandonedOrders,
                n_stuckPayments = stuckPayments\<rparr>, w6))))"







text \<open>
  What redelivery is measured by: the \<open>outcome\<close> of an order is its status, its two
  transaction hashes and its completion time. A collection is \<open>settledFor\<close> a swap id and
  an external status when a delivery of that pair cannot write to it any more (the status
  is not in the table, the id is empty, or the order that carries the id is absent or in
  a guarded state), and it has \<open>absorbed\<close> a payload when the order that carries the
  payload's id, if it is still open, already has the payload's status and hashes.
\<close>

definition outcome :: "IPaymentOrder \<Rightarrow> PaymentStatus \<times> string option \<times> string option \<times> int option" where
  "outcome d = (status d, depositTxHash d, settleTxHash d, completedAt d)"

definition settledFor :: "string \<Rightarrow> string option \<Rightarrow> IPaymentOrder list \<Rightarrow> bool" where
  "settledFor sid st xs \<longleftrightarrow>
     statusMap_at st = None \<or> sid = [] \<or>
     (case find (\<lambda>y. shiftId y = Some sid) xs of None \<Rightarrow> True | Some d \<Rightarrow> inTerminalState d)"

definition absorbed :: "Payload \<Rightarrow> IPaymentOrder list \<Rightarrow> bool" where
  "absorbed body xs \<longleftrightarrow>
     (case body_id body of None \<Rightarrow> True | Some sid \<Rightarrow>
        sid = [] \<or> statusMap_at (body_status body) = None \<or>
        (case find (\<lambda>y. shiftId y = Some sid) xs of None \<Rightarrow> True | Some d \<Rightarrow>
           inTerminalState d \<or>
           (statusMap_at (body_status body) = Some (status d) \<and>
            (truthy (body_depositHash body) \<longrightarrow> depositTxHash d = body_depositHash body) \<and>
            (truthy (body_settleHash body) \<longrightarrow> settleTxHash d = body_settleHash body))))"

section \<open>The reconciler, step by step\<close>

lemmas reconciler_defs = updateOrderStatus_def connectDB_def findOne_orderId_def save_def
  newDate_def tick_def emit_def handleOrderCompletion_def Let_def

lemmas sample_defs = assignStatus_def md_get_def inTerminalState_def world_of_def env0_def
  order1_def

lemma find_orderId: "find (\<lambda>d. orderId d = oid) xs = Some d \<Longrightarrow> orderId d = oid"
  by (induction xs) (auto split: if_splits)

lemma assignStatus_orderId [simp]: "orderId (assignStatus s m t1 t2 d) = orderId d"
  by (simp add: assignStatus_def Let_def)

lemma updateOrderStatus_webhookEvents:
  "webhookEvents (snd (updateOrderStatus E oid s m w)) = webhookEvents w"
  by (simp add: reconciler_defs split: option.splits prod.splits)

text \<open>What a call on an order in a guarded state returns, whatever the arguments.\<close>

lemma updateOrderStatus_guarded:
  assumes "find (\<lambda>d. orderId d = oid) (paymentOrders w) = Some d" and "inTerminalState d"
  shows "updateOrderStatus E oid s m w =
           (if dbFault E (steps w) then (Inl StorageError, tick w)
            else if dbFault E (Suc (steps w)) then (Inl StorageError, tick (tick w))
            else (Inr d, tick (tick w)))"
  using assms by (simp add: updateOrderStatus_def connectDB_def findOne_orderId_def tick_def)

text \<open>
  The outcomes of a call: an error that leaves both collections as they were, the guard,
  or the assignment, saved over the order that was loaded.
\<close>

lemma updateOrderStatus_cases:
  fixes E oid s m w
  defines "r \<equiv> updateOrderStatus E oid s m w"
  obtains
    (failed) e where "fst r = Inl e" "paymentOrders (snd r) = paymentOrders w"
      "trace (snd r) = trace w"
  | (noop) d where "find (\<lambda>d. orderId d = oid) (paymentOrders w) = Some d" "inTerminalState d"
      "fst r = Inr d" "paymentOrders (snd r) = paymentOrders w" "trace (snd r) = trace w"
  | (applied) d t1 t2 t3 where "find (\<lambda>d. orderId d = oid) (paymentOrders w) = Some d"
      "\<not> inTerminalState d"
      "fst r = Inr ((assignStatus s m t1 t2 d)\<lparr>updatedAt := t3\<rparr>)"
      "paymentOrders (snd r) =
         replaceOrder ((assignStatus s m t1 t2 d)\<lparr>updatedAt := t3\<rparr>) (paymentOrders w)"
      "trace (snd r) = trace w @ (if s = completed then [OrderCompleted oid] else [])"
proof (cases "dbFault E (steps w) \<or> dbFault E (Suc (steps w))")
  case True
  then have "\<exists>e. fst r = Inl e \<and> paymentOrders (snd r) = paymentOrders w \<and> trace (snd r) = trace w"
    by (auto simp: r_def updateOrderStatus_def connectDB_def findOne_orderId_def tick_def)
  then show thesis using failed by blast
next
  case nofault: False
  show thesis
  proof (cases "find (\<lambda>d. orderId d = oid) (paymentOrders w)")
    case None
    with nofault have "fst r = Inl (OrderNotFound oid) \<and> paymentOrders (snd r) = paymentOrders w
        \<and> trace (snd r) = trace w"
      by (simp add: r_def updateOrderStatus_def connectDB_def findOne_orderId_def tick_def)
    then show thesis using failed by blast
  next
    case (Some d)
    show thesis
    proof (cases "inTerminalState d")
      case True
      with nofault Some have "fst r = Inr d \<and> paymentOrders (snd r) = paymentOrders w
          \<and> trace (snd r) = trace w"
        by (simp add: r_def updateOrderStatus_guarded tick_def)
      then show thesis using noop Some True by blast
    next
      case False
      have oid: "orderId d = oid" using Some by (rule find_orderId)
      show thesis
      proof (cases "fst r")
        case (Inl e)
        with nofault Some False
        have "paymentOrders (snd r) = paymentOrders w \<and> trace (snd r) = trace w"
          by (auto simp: r_def reconciler_defs split: if_splits prod.splits)
        then show thesis using failed Inl by blast
      next
        case (Inr d')
        with nofault Some False oid have "\<exists>t1 t2 t3.
            d' = (assignStatus s m t1 t2 d)\<lparr>updatedAt := t3\<rparr> \<and>
            paymentOrders (snd r) = replaceOrder d' (paymentOrders w) \<and>
            trace (snd r) = trace w @ (if s = completed then [OrderCompleted oid] else [])"
          by (auto simp: r_def reconciler_defs assignStatus_def split: if_splits prod.splits)
        then show thesis using applied Some False Inr by blast
      qed
    qed
  qed
qed

lemma replaceOrder_list_all2:
  assumes "find (\<lambda>x. orderId x = orderId d') xs = Some d" and "R d d'" and "\<And>x. R x x"
  shows "list_all2 R xs (replaceOrder d' xs)"
  using assms(1)
proof (induction xs)
  case Nil
  then show ?case by simp
next
  case (Cons x xs)
  show ?case
  proof (cases "orderId x = orderId d'")
    case True
    with Cons.prems have "x = d" by simp
    with True assms(2,3) show ?thesis by (simp add: list.rel_refl)
  next
    case False
    with Cons show ?thesis by (simp add: assms(3))
  qed
qed

lemma assignStatus_untouched:
  "untouched_fields d ((assignStatus s m t1 t2 d)\<lparr>updatedAt := t3\<rparr>)"
  by (simp add: untouched_fields_def assignStatus_def Let_def)

lemma assignStatus_history:
  "statusHistory ((assignStatus s m t1 t2 d)\<lparr>updatedAt := t3\<rparr>) =
     statusHistory d @ [\<lparr>h_status = s, h_timestamp = t1, h_note = md_get md_note m\<rparr>]"
  by (simp add: assignStatus_def Let_def)

section \<open>Properties\<close>

text \<open>
  C1 (as amended). The guard of \<^verbatim>\<open>updateOrderStatus\<close> lists \<open>completed\<close>, \<open>refunded\<close> and
  \<open>expired\<close>. For an order in one of these three states a call with any new status and any
  metadata writes nothing: the order collection (hence status, history, transaction
  hashes and completion time of every order) and the trace (hence the completion hook)
  are as before, and the call returns the order as it was loaded, or the storage error of
  a rejected read.
\<close>

theorem guarded_order_is_returned_unchanged:
  assumes "find (\<lambda>d. orderId d = oid) (paymentOrders w) = Some d"
    and "status d = completed \<or> status d = refunded \<or> status d = expired"
  shows "paymentOrders (snd (updateOrderStatus E oid s m w)) = paymentOrders w \<and>
         webhookEvents (snd (updateOrderStatus E oid s m w)) = webhookEvents w \<and>
         trace (snd (updateOrderStatus E oid s m w)) = trace w \<and>
         (fst (updateOrderStatus E oid s m w) = Inr d \<or>
          fst (updateOrderStatus E oid s m w) = Inl StorageError) \<and>
         (\<not> dbFault E (steps w) \<and> \<not> dbFault E (Suc (steps w)) \<longrightarrow>
            fst (updateOrderStatus E oid s m w) = Inr d)"
proof -
  from assms(2) have "inTerminalState d"
    by (auto simp: inTerminalState_def)
  from updateOrderStatus_guarded [OF assms(1) this, of E s m]
  show ?thesis by (simp add: tick_def)
qed

theorem guarded_order_is_returned_unchanged_witness:
  "find (\<lambda>d. orderId d = ''ord_1'') (paymentOrders (world_of [order1\<lparr>status := expired\<rparr>]))
     = Some (order1\<lparr>status := expired\<rparr>) \<and>
   status (order1\<lparr>status := expired\<rparr>) = expired \<and>
   paymentOrders (snd (updateOrderStatus env0 ''ord_1'' completed None
       (world_of [order1\<lparr>status := expired\<rparr>]))) = [order1\<lparr>status := expired\<rparr>] \<and>
   trace (snd (updateOrderStatus env0 ''ord_1'' completed None
       (world_of [order1\<lparr>status := expired\<rparr>]))) = [] \<and>
   fst (updateOrderStatus env0 ''ord_1'' completed None
       (world_of [order1\<lparr>status := expired\<rparr>])) = Inr (order1\<lparr>status := expired\<rparr>)"
  using guarded_order_is_returned_unchanged
    [of "''ord_1''" "world_of [order1\<lparr>status := expired\<rparr>]" "order1\<lparr>status := expired\<rparr>"
        env0 completed None]
  by (simp add: world_of_def env0_def order1_def)

text \<open>
  C1 as stated fails for \<open>failed\<close>, which the guard does not list: an order in state
  \<open>failed\<close> that receives \<open>completed\<close> is rewritten, its completion time is set and the
  completion hook runs.
\<close>

theorem failed_order_is_reopened:
  "status (order1\<lparr>status := failed\<rparr>) = failed \<and>
   map status (paymentOrders (snd (updateOrderStatus env0 ''ord_1'' completed None
       (world_of [order1\<lparr>status := failed\<rparr>])))) = [completed] \<and>
   map completedAt (paymentOrders (snd (updateOrderStatus env0 ''ord_1'' completed None
       (world_of [order1\<lparr>status := failed\<rparr>])))) = [Some 700003] \<and>
   map (length \<circ> statusHistory) (paymentOrders (snd (updateOrderStatus env0 ''ord_1'' completed None
       (world_of [order1\<lparr>status := failed\<rparr>])))) = [2] \<and>
   trace (snd (updateOrderStatus env0 ''ord_1'' completed None
       (world_of [order1\<lparr>status := failed\<rparr>]))) = [OrderCompleted ''ord_1'']"
  by (simp add: reconciler_defs sample_defs)

text \<open>
  C10 (as amended). Whatever the outcome of a call to \<^verbatim>\<open>updateOrderStatus\<close>, the order
  collection keeps its length and order; every stored order agrees with its former self
  outside \<open>status\<close>, \<open>statusHistory\<close>, \<open>depositTxHash\<close>, \<open>settleTxHash\<close>, \<open>completedAt\<close> and the
  \<open>updatedAt\<close> stamp of the save; its former history is a prefix of its history; an order
  with another \<open>orderId\<close> is not touched at all; and the audit collection is not touched.
\<close>

theorem updateOrderStatus_frame:
  "list_all2
     (\<lambda>a b. untouched_fields a b \<and> prefix (statusHistory a) (statusHistory b) \<and>
            (orderId a \<noteq> oid \<longrightarrow> b = a))
     (paymentOrders w) (paymentOrders (snd (updateOrderStatus E oid s m w))) \<and>
   webhookEvents (snd (updateOrderStatus E oid s m w)) = webhookEvents w"
proof -
  let ?R = "\<lambda>a b. untouched_fields a b \<and> prefix (statusHistory a) (statusHistory b) \<and>
            (orderId a \<noteq> oid \<longrightarrow> b = a)"
  have refl: "?R x x" for x
    by (simp add: untouched_fields_def)
  have "list_all2 ?R (paymentOrders w) (paymentOrders (snd (updateOrderStatus E oid s m w)))"
  proof (cases E oid s m w rule: updateOrderStatus_cases)
    case (failed e)
    then show ?thesis using refl by (simp add: list.rel_refl)
  next
    case (noop d)
    then show ?thesis using refl by (simp add: list.rel_refl)
  next
    case (applied d t1 t2 t3)
    let ?d' = "(assignStatus s m t1 t2 d)\<lparr>updatedAt := t3\<rparr>"
    have oid: "orderId d = oid" using applied(1) by (rule find_orderId)
    have found: "find (\<lambda>x. orderId x = orderId ?d') (paymentOrders w) = Some d"
      using applied(1) oid by simp
    have step: "?R d ?d'"
      using oid by (simp add: assignStatus_untouched assignStatus_history)
    show ?thesis
      unfolding applied(4) using found step refl by (rule replaceOrder_list_all2)
  qed
  then show ?thesis by (simp add: updateOrderStatus_webhookEvents)
qed

theorem updateOrderStatus_frame_witness:
  "list_all2
     (\<lambda>a b. untouched_fields a b \<and> prefix (statusHistory a) (statusHistory b) \<and>
            (orderId a \<noteq> ''ord_1'' \<longrightarrow> b = a))
     [order1]
     [order1\<lparr>status := completed,
             statusHistory := statusHistory order1 @
               [\<lparr>h_status = completed, h_timestamp = 700002, h_note = None\<rparr>],
             completedAt := Some 700003, updatedAt := 700004\<rparr>]"
  using updateOrderStatus_frame [of "''ord_1''" "world_of [order1]" env0 completed None]
  by (simp add: reconciler_defs sample_defs)

text \<open>
  C10 as stated leaves \<open>updatedAt\<close> out of the fields a call may change. The schema is
  declared with \<^verbatim>\<open>timestamps: true\<close>, so the save refreshes it.
\<close>

theorem updateOrderStatus_refreshes_updatedAt:
  "map updatedAt (paymentOrders (world_of [order1])) = [1000] \<and>
   map updatedAt (paymentOrders (snd (updateOrderStatus env0 ''ord_1'' processing None
       (world_of [order1])))) = [700003]"
  by (simp add: reconciler_defs sample_defs)

section \<open>The webhook handler and the poll\<close>

lemmas webhook_defs = POST_def POST_try_def webhookMetadata_def connectDB_def findOne_shiftId_def
  WebhookEvent_create_def WebhookEvent_findOneAndUpdate_def newDate_def tick_def emit_def Let_def

lemmas response_defs = invalidPayload_def orderNotFound_def acknowledged_def processingError_def


lemma length_updateFirst [simp]: "length (updateFirst p f xs) = length xs"
  by (induction xs) auto













lemma POST_try_error_events:
  assumes "fst (POST_try E request w) = Inl e"
  shows "webhookEvents (snd (POST_try E request w)) = webhookEvents w \<or>
     (\<exists>body sid. req_body request = Some body \<and> body_id body = Some sid \<and>
        webhookEvents (snd (POST_try E request w)) =
          webhookEvents w @ [newWebhookEvent (nanoid E (Suc (steps w))) sid body
                               (req_headers request) (clock E (Suc (Suc (steps w))))])"
proof (cases "req_body request")
  case None
  then show ?thesis
    by (simp add: POST_try_def connectDB_def tick_def)
next
  case (Some body)
  show ?thesis
  proof (cases "body_id body")
    case None
    with Some show ?thesis
      by (simp add: POST_try_def connectDB_def tick_def)
  next
    case (Some sid)
    with \<open>req_body request = Some body\<close> assms show ?thesis
      by (simp add: POST_try_def connectDB_def findOne_shiftId_def
          WebhookEvent_create_def WebhookEvent_findOneAndUpdate_def newDate_def tick_def Let_def
          case_prod_beta updateOrderStatus_webhookEvents
          split: sum.splits option.splits if_splits)
  qed
qed

text \<open>
  C7 (as amended). When anything inside the \<^verbatim>\<open>try\<close> block throws, the reconciliation step
  included, the handler prints the error and answers \<open>processingError\<close> (200, \<open>success: false\<close>).
  The \<^verbatim>\<open>catch\<close> block writes nothing to the audit collection: the delivery's record, if
  it was created, stays unprocessed, with no \<open>processingError\<close> and no order id.
\<close>

theorem webhook_error_is_contained:
  assumes "fst (POST_try E request w) = Inl e"
  shows "fst (POST E request w) = processingError \<and>
         trace (snd (POST E request w)) = trace (snd (POST_try E request w)) @ [WebhookError e] \<and>
         (\<exists>new. webhookEvents (snd (POST E request w)) = webhookEvents w @ new \<and> length new \<le> 1 \<and>
            list_all (\<lambda>ev. \<not> ev_processed ev \<and> ev_processingError ev = None \<and> ev_orderId ev = None) new)"
proof -
  have 1: "fst (POST E request w) = processingError \<and>
         trace (snd (POST E request w)) = trace (snd (POST_try E request w)) @ [WebhookError e]"
    using assms by (cases "POST_try E request w") (simp add: POST_def emit_def)
  have 2: "webhookEvents (snd (POST_try E request w)) = webhookEvents w \<or>
     (\<exists>eid sid body t. webhookEvents (snd (POST_try E request w)) =
        webhookEvents w @ [newWebhookEvent eid sid body (req_headers request) t])"
    using POST_try_error_events [OF assms] by blast
  have 3: "webhookEvents (snd (POST E request w)) = webhookEvents (snd (POST_try E request w))"
    by (cases "POST_try E request w") (simp add: POST_def emit_def split: sum.splits)
  from 2 have "\<exists>new. webhookEvents (snd (POST_try E request w)) = webhookEvents w @ new \<and> length new \<le> 1 \<and>
            list_all (\<lambda>ev. \<not> ev_processed ev \<and> ev_processingError ev = None \<and> ev_orderId ev = None) new"
  proof
    assume "webhookEvents (snd (POST_try E request w)) = webhookEvents w"
    then show ?thesis by (intro exI [of _ "[]"]) simp
  next
    assume "\<exists>eid sid body t. webhookEvents (snd (POST_try E request w)) =
        webhookEvents w @ [newWebhookEvent eid sid body (req_headers request) t]"
    then obtain eid sid body t where "webhookEvents (snd (POST_try E request w)) =
        webhookEvents w @ [newWebhookEvent eid sid body (req_headers request) t]" by blast
    then show ?thesis
      by (intro exI [of _ "[newWebhookEvent eid sid body (req_headers request) t]"])
         (simp add: newWebhookEvent_def)
  qed
  with 1 3 show ?thesis by simp
qed

text \<open>
  The database rejects the save inside \<^verbatim>\<open>updateOrderStatus\<close> (step 9 of the handler).
\<close>

theorem webhook_error_is_contained_witness:
  "fst (POST_try (env_failing_at 9) (request_of (Some ''shift_1'') (Some ''processing''))
      (world_of [order1])) = Inl StorageError \<and>
   fst (POST (env_failing_at 9) (request_of (Some ''shift_1'') (Some ''processing''))
      (world_of [order1])) = processingError \<and>
   trace (snd (POST (env_failing_at 9) (request_of (Some ''shift_1'') (Some ''processing''))
      (world_of [order1]))) = [WebhookError StorageError]"
  using webhook_error_is_contained [of "env_failing_at 9"
      "request_of (Some ''shift_1'') (Some ''processing'')" "world_of [order1]" StorageError]
  by (simp add: webhook_defs reconciler_defs sample_defs request_of_def env_failing_at_def
      statusMap_at_def statusMap_def show_status_def newWebhookEvent_def response_defs)

text \<open>
  C7 as stated has the error recorded in the audit record's \<open>processingError\<close>. With the
  save of \<^verbatim>\<open>updateOrderStatus\<close> rejected (its fifth step; the tenth of the handler) the
  record of the delivery keeps \<open>processed = false\<close> and no \<open>processingError\<close>.
\<close>

theorem reconciliation_error_is_not_recorded:
  "fst (updateOrderStatus (env_failing_at 4) ''ord_1'' processing None (world_of [order1]))
     = Inl StorageError \<and>
   fst (POST (env_failing_at 9) (request_of (Some ''shift_1'') (Some ''processing''))
      (world_of [order1])) = processingError \<and>
   map ev_processingError (webhookEvents (snd (POST (env_failing_at 9)
      (request_of (Some ''shift_1'') (Some ''processing'')) (world_of [order1])))) = [None] \<and>
   map ev_processed (webhookEvents (snd (POST (env_failing_at 9)
      (request_of (Some ''shift_1'') (Some ''processing'')) (world_of [order1])))) = [False] \<and>
   paymentOrders (snd (POST (env_failing_at 9)
      (request_of (Some ''shift_1'') (Some ''processing'')) (world_of [order1]))) = [order1]"
  by (simp add: webhook_defs reconciler_defs sample_defs request_of_def env_failing_at_def
      statusMap_at_def statusMap_def show_status_def newWebhookEvent_def response_defs)










section \<open>Runs of operations\<close>

lemma evolves_trans: "evolves P v u \<Longrightarrow> evolves P w v \<Longrightarrow> evolves P w u"
proof (induction rule: evolves.induct)
  case (same w' w)
  from same(3) same(1,2) show ?case
    by (induction rule: evolves.induct) (auto intro: evolves.intros)
next
  case (updated w v oid d w' t3 s m t1 t2)
  then show ?case by (blast intro: evolves.updated)
next
  case (reminded w v d w' t)
  then show ?case by (blast intro: evolves.reminded)
next
  case (emitted w v e w')
  then show ?case by (blast intro: evolves.emitted)
qed

lemma evolves_same_data:
  "evolves P w v \<Longrightarrow> paymentOrders v' = paymentOrders v \<Longrightarrow> trace v' = trace v \<Longrightarrow> evolves P w v'"
  by (rule evolves_trans [OF evolves.same]) 

lemma replaceOrder_ids [simp]: "map orderId (replaceOrder d xs) = map orderId xs"
  by (induction xs) auto

lemma evolves_ids: "evolves P w w' \<Longrightarrow> map orderId (paymentOrders w') = map orderId (paymentOrders w)"
  by (induction rule: evolves.induct) auto

lemma replaceOrder_keeps:
  "find (\<lambda>x. orderId x = orderId d') xs = Some d0 \<Longrightarrow> y \<in> set xs \<Longrightarrow> y \<noteq> d0 \<Longrightarrow>
   y \<in> set (replaceOrder d' xs)"
  by (induction xs) (auto split: if_splits)

lemma evolves_frozen:
  "evolves P w w' \<Longrightarrow> y \<in> set (paymentOrders w) \<Longrightarrow> inTerminalState y \<Longrightarrow>
   y \<in> set (paymentOrders w')"
proof (induction rule: evolves.induct)
  case (same w' w)
  then show ?case by simp
next
  case (updated w v oid d w' t3 s m t1 t2)
  have "orderId d = oid" using updated(2) by (rule find_orderId)
  then have "find (\<lambda>x. orderId x = orderId ((assignStatus s m t1 t2 d)\<lparr>updatedAt := t3\<rparr>))
      (paymentOrders v) = Some d" using updated(2) by simp
  moreover have "y \<in> set (paymentOrders v)" using updated by simp
  moreover have "y \<noteq> d" using updated by auto
  ultimately show ?case unfolding updated(4) by (rule replaceOrder_keeps)
next
  case (reminded w v d w' t)
  have "find (\<lambda>x. orderId x = orderId (d\<lparr>expiryReminderSent := Some True, updatedAt := t\<rparr>))
      (paymentOrders v) = Some d" using reminded(2) by simp
  moreover have "y \<in> set (paymentOrders v)" using reminded by simp
  moreover have "y \<noteq> d" using reminded by (auto simp: inTerminalState_def)
  ultimately show ?case unfolding reminded(4) by (rule replaceOrder_keeps)
next
  case (emitted w v e w')
  then show ?case by simp
qed

lemma replaceOrder_set:
  "distinct (map orderId xs) \<Longrightarrow>
   set (replaceOrder d' xs) \<subseteq> insert d' {y \<in> set xs. orderId y \<noteq> orderId d'}"
  by (induction xs) (auto simp: image_iff)

lemma hooks_append [simp]: "hooks (tr @ tr') oid = hooks tr oid + hooks tr' oid"
  by (simp add: hooks_def)

lemma hooks_single [simp]: "hooks [e] oid = (if e = OrderCompleted oid then 1 else 0)"
  by (simp add: hooks_def)

lemma hooks_Nil [simp]: "hooks [] oid = 0"
  by (simp add: hooks_def)

lemma completedOnce_assign:
  assumes "completedOnce tr d" and "\<not> inTerminalState d"
  shows "completedOnce (tr @ (if s = completed then [OrderCompleted (orderId d)] else []))
           ((assignStatus s m t1 t2 d)\<lparr>updatedAt := t3\<rparr>)"
  using assms
  by (auto simp: completedOnce_def completions_def inTerminalState_def assignStatus_def Let_def)

lemma completedOnce_other:
  "orderId y \<noteq> oid \<Longrightarrow>
   completedOnce (tr @ (if s = completed then [OrderCompleted oid] else [])) y = completedOnce tr y"
  by (auto simp: completedOnce_def)

lemma completedOnce_reminded:
  "completedOnce tr (d\<lparr>expiryReminderSent := r, updatedAt := t\<rparr>) = completedOnce tr d"
  by (simp add: completedOnce_def completions_def)

lemma completedOnce_emitted:
  "\<forall>oid. e \<noteq> OrderCompleted oid \<Longrightarrow> completedOnce (tr @ [e]) y = completedOnce tr y"
  by (auto simp: completedOnce_def)

lemma evolves_consistent:
  assumes "evolves P w w'" and "\<And>oid. \<not> P (OrderCompleted oid)" and "consistent w"
  shows "consistent w'"
  using assms(1,3)
proof (induction rule: evolves.induct)
  case (same w' w)
  then show ?case by (simp add: consistent_def)
next
  case (updated w v oid d w' t3 s m t1 t2)
  let ?d' = "(assignStatus s m t1 t2 d)\<lparr>updatedAt := t3\<rparr>"
  let ?tr = "trace v @ (if s = completed then [OrderCompleted oid] else [])"
  have v: "consistent v" using updated by simp
  then have dist: "distinct (map orderId (paymentOrders v))"
    and all: "\<And>y. y \<in> set (paymentOrders v) \<Longrightarrow> completedOnce (trace v) y"
    by (auto simp: consistent_def list_all_iff)
  have oid: "orderId d = oid" using updated(2) by (rule find_orderId)
  have "d \<in> set (paymentOrders v)"
    using updated(2) by (auto simp: find_Some_iff)
  then have "completedOnce (trace v) d" by (rule all)
  from completedOnce_assign [OF this updated(3)] have new: "completedOnce ?tr ?d'"
    unfolding oid .
  have "completedOnce ?tr y" if "y \<in> set (replaceOrder ?d' (paymentOrders v))" for y
  proof -
    from that replaceOrder_set [OF dist, of ?d']
    have "y = ?d' \<or> (y \<in> set (paymentOrders v) \<and> orderId y \<noteq> oid)"
      using oid by auto
    then show ?thesis using new all completedOnce_other by blast
  qed
  then show ?case
    using dist updated(4,5) by (simp add: consistent_def list_all_iff)
next
  case (reminded w v d w' t)
  let ?d' = "d\<lparr>expiryReminderSent := Some True, updatedAt := t\<rparr>"
  have v: "consistent v" using reminded by simp
  then have dist: "distinct (map orderId (paymentOrders v))"
    and all: "\<And>y. y \<in> set (paymentOrders v) \<Longrightarrow> completedOnce (trace v) y"
    by (auto simp: consistent_def list_all_iff)
  have "d \<in> set (paymentOrders v)"
    using reminded(2) by (auto simp: find_Some_iff)
  then have new: "completedOnce (trace v) ?d'"
    using all by (simp add: completedOnce_reminded)
  have "completedOnce (trace v) y" if "y \<in> set (replaceOrder ?d' (paymentOrders v))" for y
    using that replaceOrder_set [OF dist, of ?d'] new all by auto
  then show ?case
    using dist reminded(4,5) by (simp add: consistent_def list_all_iff)
next
  case (emitted w v e w')
  have "\<forall>oid. e \<noteq> OrderCompleted oid" using emitted(2) assms(2) by auto
  then show ?case
    using emitted by (simp add: consistent_def list_all_iff completedOnce_emitted)
qed

lemma evolves_refl: "evolves P w w"
  by (rule evolves.same) simp_all

lemma quiet_connectDB [simp]:
  "paymentOrders (snd (connectDB E w)) = paymentOrders w" "trace (snd (connectDB E w)) = trace w"
  by (simp_all add: connectDB_def tick_def)

lemma quiet_findOne_orderId [simp]:
  "paymentOrders (snd (findOne_orderId E oid w)) = paymentOrders w"
  "trace (snd (findOne_orderId E oid w)) = trace w"
  by (simp_all add: findOne_orderId_def tick_def)

lemma quiet_findOne_shiftId [simp]:
  "paymentOrders (snd (findOne_shiftId E sid w)) = paymentOrders w"
  "trace (snd (findOne_shiftId E sid w)) = trace w"
  by (simp_all add: findOne_shiftId_def tick_def)

lemma quiet_find_orders [simp]:
  "paymentOrders (snd (find_orders E q w)) = paymentOrders w"
  "trace (snd (find_orders E q w)) = trace w"
  by (simp_all add: find_orders_def tick_def)

lemma quiet_getShiftStatus [simp]:
  "paymentOrders (snd (getShiftStatus E sid w)) = paymentOrders w"
  "trace (snd (getShiftStatus E sid w)) = trace w"
  by (simp_all add: getShiftStatus_def tick_def)

lemma quiet_newDate [simp]:
  "paymentOrders (snd (newDate E w)) = paymentOrders w" "trace (snd (newDate E w)) = trace w"
  by (simp_all add: newDate_def tick_def)

lemma quiet_tick [simp]: "paymentOrders (tick w) = paymentOrders w" "trace (tick w) = trace w"
  by (simp_all add: tick_def)

lemma emit_simps [simp]: "paymentOrders (emit e w) = paymentOrders w" "trace (emit e w) = trace w @ [e]"
  by (simp_all add: emit_def)

lemma quiet_create [simp]:
  "paymentOrders (snd (WebhookEvent_create E ev w)) = paymentOrders w"
  "trace (snd (WebhookEvent_create E ev w)) = trace w"
  by (simp_all add: WebhookEvent_create_def tick_def)

lemma quiet_findOneAndUpdate [simp]:
  "paymentOrders (snd (WebhookEvent_findOneAndUpdate E eid f w)) = paymentOrders w"
  "trace (snd (WebhookEvent_findOneAndUpdate E eid f w)) = trace w"
  by (simp_all add: WebhookEvent_findOneAndUpdate_def tick_def)

text \<open>A step that may throw, followed by the rest.\<close>

lemma evolves_seq:
  assumes "evolves P w0 (snd r)"
    and "\<And>x w'. r = (Inr x, w') \<Longrightarrow> evolves P w0 w' \<Longrightarrow> evolves P w0 (snd (f x w'))"
  shows "evolves P w0 (snd (case r of (Inl e, w1) \<Rightarrow> (Inl e, w1) | (Inr x, w1) \<Rightarrow> f x w1))"
  using assms by (cases r) (auto split: sum.splits)

lemma updateOrderStatus_evolves:
  assumes "evolves P w0 w"
  shows "evolves P w0 (snd (updateOrderStatus E oid s m w))"
proof (cases E oid s m w rule: updateOrderStatus_cases)
  case (failed e)
  then show ?thesis using assms by (blast intro: evolves_same_data)
next
  case (noop d)
  then show ?thesis using assms by (blast intro: evolves_same_data)
next
  case (applied d t1 t2 t3)
  then show ?thesis using assms by (blast intro: evolves.updated)
qed

lemma pollShiftStatus_evolves:
  assumes "evolves P w0 w"
  shows "evolves P w0 (snd (pollShiftStatus E oid w))"
proof -
  have q: "evolves P w0 v" if "paymentOrders v = paymentOrders w" "trace v = trace w" for v
    using assms that by (rule evolves_same_data)
  show ?thesis
    unfolding pollShiftStatus_def
    by (auto simp: case_prod_beta Let_def split: sum.splits option.splits
        intro!: updateOrderStatus_evolves q)
qed

lemma save_reminder_evolves:
  assumes "evolves P w0 w" and "find (\<lambda>x. orderId x = orderId d) (paymentOrders w) = Some d"
    and "status d = pending"
  shows "evolves P w0 (snd (save E (d\<lparr>expiryReminderSent := Some True\<rparr>) w))"
proof (cases "dbFault E (Suc (steps w))")
  case True
  then have "paymentOrders (snd (save E (d\<lparr>expiryReminderSent := Some True\<rparr>) w)) = paymentOrders w"
    "trace (snd (save E (d\<lparr>expiryReminderSent := Some True\<rparr>) w)) = trace w"
    by (simp_all add: save_def newDate_def tick_def)
  with assms(1) show ?thesis by (rule evolves_same_data)
next
  case False
  then have "paymentOrders (snd (save E (d\<lparr>expiryReminderSent := Some True\<rparr>) w)) =
      replaceOrder (d\<lparr>expiryReminderSent := Some True, updatedAt := clock E (steps w)\<rparr>) (paymentOrders w)"
    "trace (snd (save E (d\<lparr>expiryReminderSent := Some True\<rparr>) w)) = trace w"
    by (simp_all add: save_def newDate_def tick_def Let_def)
  with assms show ?thesis by (blast intro: evolves.reminded)
qed

lemma expiredPendingLoop_evolves:
  assumes "\<And>oid. P (MonitorMarkedExpired oid)"
  shows "evolves P w0 w \<Longrightarrow> evolves P w0 (snd (expiredPendingLoop E xs w))"
proof (induction xs arbitrary: w)
  case Nil
  then show ?case by simp
next
  case (Cons x xs)
  show ?case
    unfolding expiredPendingLoop.simps
  proof (rule evolves_seq)
    show "evolves P w0 (snd (updateOrderStatus E (orderId x) expired (Some expiredNote) w))"
      using Cons.prems by (rule updateOrderStatus_evolves)
  next
    fix r w'
    assume "evolves P w0 w'"
    then have "evolves P w0 (emit (MonitorMarkedExpired (orderId x)) w')"
      using assms by (rule evolves.emitted) simp_all
    then show "evolves P w0 (snd (expiredPendingLoop E xs (emit (MonitorMarkedExpired (orderId x)) w')))"
      by (rule Cons.IH)
  qed
qed

lemma abandonedLoop_evolves:
  "evolves P w0 w \<Longrightarrow> evolves P w0 (snd (abandonedLoop E xs w))"
proof (induction xs arbitrary: w)
  case Nil
  then show ?case by simp
next
  case (Cons x xs)
  show ?case
    unfolding abandonedLoop.simps
  proof (rule evolves_seq)
    show "evolves P w0 (snd (updateOrderStatus E (orderId x) expired (Some abandonedNote) w))"
      using Cons.prems by (rule updateOrderStatus_evolves)
  next
    fix r w'
    assume "evolves P w0 w'"
    then show "evolves P w0 (snd (abandonedLoop E xs w'))"
      by (rule Cons.IH)
  qed
qed

lemma stuckLoop_evolves:
  assumes "\<And>oid. P (MonitorPolled oid)" and "\<And>oid e. P (MonitorPollFailed oid e)"
  shows "evolves P w0 w \<Longrightarrow> evolves P w0 (stuckLoop E xs w)"
proof (induction xs arbitrary: w)
  case Nil
  then show ?case by simp
next
  case (Cons x xs)
  show ?case
  proof (cases "truthy (shiftId x)")
    case False
    then show ?thesis using Cons by simp
  next
    case True
    obtain r w' where poll: "pollShiftStatus E (orderId x) w = (r, w')"
      by (cases "pollShiftStatus E (orderId x) w")
    then have w': "evolves P w0 w'"
      using pollShiftStatus_evolves [OF Cons.prems, of E "orderId x"] by simp
    show ?thesis
    proof (cases r)
      case (Inl e)
      from w' have "evolves P w0 (emit (MonitorPollFailed (orderId x) e) w')"
        using assms(2) by (rule evolves.emitted) simp_all
      then show ?thesis using True poll Inl by (simp add: Cons.IH)
    next
      case (Inr d)
      from w' have "evolves P w0 (emit (MonitorPolled (orderId x)) w')"
        using assms(1) by (rule evolves.emitted) simp_all
      then show ?thesis using True poll Inr by (simp add: Cons.IH)
    qed
  qed
qed

lemma find_in_distinct:
  "distinct (map orderId xs) \<Longrightarrow> x \<in> set xs \<Longrightarrow> find (\<lambda>y. orderId y = orderId x) xs = Some x"
  by (induction xs) (auto simp: image_iff)

lemma replaceOrder_keeps_other:
  "y \<in> set xs \<Longrightarrow> orderId y \<noteq> orderId d \<Longrightarrow> y \<in> set (replaceOrder d xs)"
  by (induction xs) auto

lemma save_orders:
  "save E d w = (Inr r, w') \<Longrightarrow> paymentOrders w' = replaceOrder r (paymentOrders w) \<and> orderId r = orderId d"
  by (auto simp: save_def newDate_def tick_def Let_def split: if_splits)

lemma expiringSoonLoop_evolves:
  assumes "\<And>oid. P (MonitorReminder oid)"
  shows "evolves P w0 w \<Longrightarrow> distinct (map orderId (paymentOrders w)) \<Longrightarrow>
         set xs \<subseteq> set (paymentOrders w) \<Longrightarrow> distinct (map orderId xs) \<Longrightarrow>
         \<forall>x\<in>set xs. status x = pending \<Longrightarrow>
         evolves P w0 (snd (expiringSoonLoop E xs w))"
proof (induction xs arbitrary: w)
  case Nil
  then show ?case by simp
next
  case (Cons x xs)
  let ?w1 = "emit (MonitorReminder (orderId x)) w"
  have w1: "evolves P w0 ?w1"
    using Cons.prems(1) assms by (rule evolves.emitted) simp_all
  have found: "find (\<lambda>y. orderId y = orderId x) (paymentOrders ?w1) = Some x"
    using Cons.prems(2,3) by (simp add: find_in_distinct)
  have pend: "status x = pending" using Cons.prems(5) by simp
  show ?case
    unfolding expiringSoonLoop.simps
  proof (rule evolves_seq)
    show "evolves P w0 (snd (save E (x\<lparr>expiryReminderSent := Some True\<rparr>) ?w1))"
      using w1 found pend by (rule save_reminder_evolves)
  next
    fix r w'
    assume saved: "save E (x\<lparr>expiryReminderSent := Some True\<rparr>) ?w1 = (Inr r, w')"
      and ev: "evolves P w0 w'"
    from save_orders [OF saved]
    have orders: "paymentOrders w' = replaceOrder r (paymentOrders w)" and r: "orderId r = orderId x"
      by simp_all
    have "distinct (map orderId (paymentOrders w'))"
      using Cons.prems(2) orders by simp
    moreover have "set xs \<subseteq> set (paymentOrders w')"
    proof
      fix y assume y: "y \<in> set xs"
      then have "y \<in> set (paymentOrders w)" using Cons.prems(3) by auto
      moreover have "orderId y \<noteq> orderId r" using y Cons.prems(4) r by (auto simp: image_iff)
      ultimately show "y \<in> set (paymentOrders w')"
        unfolding orders by (rule replaceOrder_keeps_other)
    qed
    moreover have "distinct (map orderId xs)" "\<forall>x\<in>set xs. status x = pending"
      using Cons.prems(4,5) by simp_all
    ultimately show "evolves P w0 (snd (expiringSoonLoop E xs w'))"
      using ev Cons.IH by blast
  qed
qed

lemma find_orders_Inr:
  "find_orders E q w = (Inr xs, w') \<Longrightarrow>
   xs = filter q (paymentOrders w) \<and> paymentOrders w' = paymentOrders w \<and> trace w' = trace w"
  by (auto simp: find_orders_def tick_def split: if_splits)

lemma sweepExpiredPending_evolves:
  assumes "\<And>oid. P (MonitorMarkedExpired oid)" and "evolves P w0 w"
  shows "evolves P w0 (snd (sweepExpiredPending E now w))"
  unfolding sweepExpiredPending_def
proof (rule evolves_seq)
  show "evolves P w0 (snd (find_orders E (expiredPendingQuery now) w))"
    using assms(2) by (rule evolves_same_data) simp_all
next
  fix xs w'
  assume "evolves P w0 w'"
  then have "evolves P w0 (snd (expiredPendingLoop E xs w'))"
    using assms(1) by (simp add: expiredPendingLoop_evolves)
  then show "evolves P w0 (snd (case expiredPendingLoop E xs w' of
      (Inl e, w2) \<Rightarrow> (Inl e, w2) | (Inr _, w2) \<Rightarrow> (Inr (length xs), w2)))"
    by (rule evolves_seq) simp
qed

lemma sweepAbandoned_evolves:
  assumes "evolves P w0 w"
  shows "evolves P w0 (snd (sweepAbandoned E now w))"
  unfolding sweepAbandoned_def
proof (rule evolves_seq)
  show "evolves P w0 (snd (find_orders E (abandonedQuery now) w))"
    using assms by (rule evolves_same_data) simp_all
next
  fix xs w'
  assume "evolves P w0 w'"
  then have "evolves P w0 (snd (abandonedLoop E xs w'))"
    by (rule abandonedLoop_evolves)
  then show "evolves P w0 (snd (case abandonedLoop E xs w' of
      (Inl e, w2) \<Rightarrow> (Inl e, w2) | (Inr _, w2) \<Rightarrow> (Inr (length xs), w2)))"
    by (rule evolves_seq) simp
qed

lemma sweepStuck_evolves:
  assumes "\<And>oid. P (MonitorPolled oid)" and "\<And>oid e. P (MonitorPollFailed oid e)"
    and "evolves P w0 w"
  shows "evolves P w0 (snd (sweepStuck E now w))"
  unfolding sweepStuck_def
proof (rule evolves_seq)
  show "evolves P w0 (snd (find_orders E (stuckQuery now) w))"
    using assms(3) by (rule evolves_same_data) simp_all
next
  fix xs w'
  assume "evolves P w0 w'"
  then show "evolves P w0 (snd (Inr (length xs), stuckLoop E xs w'))"
    using assms(1,2) by (simp add: stuckLoop_evolves)
qed

lemma sweepExpiringSoon_evolves:
  assumes "\<And>oid. P (MonitorReminder oid)" and "evolves P w0 w"
    and "distinct (map orderId (paymentOrders w))"
  shows "evolves P w0 (snd (sweepExpiringSoon E now w))"
  unfolding sweepExpiringSoon_def
proof (rule evolves_seq)
  show "evolves P w0 (snd (find_orders E (expiringSoonQuery now) w))"
    using assms(2) by (rule evolves_same_data) simp_all
next
  fix xs w'
  assume found: "find_orders E (expiringSoonQuery now) w = (Inr xs, w')" and ev: "evolves P w0 w'"
  from find_orders_Inr [OF found]
  have xs: "xs = filter (expiringSoonQuery now) (paymentOrders w)"
    and same: "paymentOrders w' = paymentOrders w" by simp_all
  have "distinct (map orderId (paymentOrders w'))" using assms(3) same by simp
  moreover have "set xs \<subseteq> set (paymentOrders w')" using xs same by auto
  moreover have "distinct (map orderId xs)"
    unfolding xs using assms(3) by (rule distinct_map_filter)
  moreover have "\<forall>x\<in>set xs. status x = pending"
    using xs by (auto simp: expiringSoonQuery_def)
  ultimately have "evolves P w0 (snd (expiringSoonLoop E xs w'))"
    using ev assms(1) by (simp add: expiringSoonLoop_evolves)
  then show "evolves P w0 (snd (case expiringSoonLoop E xs w' of
      (Inl e, w2) \<Rightarrow> (Inl e, w2) | (Inr _, w2) \<Rightarrow> (Inr (length xs), w2)))"
    by (rule evolves_seq) simp
qed

lemma monitorPayments_unfold:
  "monitorPayments E w =
     (case connectDB E w of
        (Inl e, w1) \<Rightarrow> (Inl e, w1)
      | (Inr _, w1) \<Rightarrow>
     (case sweepExpiredPending E (clock E (steps w1)) (tick w1) of
        (Inl e, w3) \<Rightarrow> (Inl e, w3)
      | (Inr n1, w3) \<Rightarrow> sweepRest E (clock E (steps w1)) n1 w3))"
  by (simp add: monitorPayments_def sweepRest_def newDate_def split: prod.splits sum.splits)

lemma sweepRest_evolves:
  assumes "\<And>oid. P (MonitorReminder oid)" and "\<And>oid. P (MonitorPolled oid)"
    and "\<And>oid e. P (MonitorPollFailed oid e)"
    and "evolves P w0 w" and "distinct (map orderId (paymentOrders w0))"
  shows "evolves P w0 (snd (sweepRest E now n1 w))"
proof -
  have ids: "distinct (map orderId (paymentOrders v))" if "evolves P w0 v" for v
    using evolves_ids [OF that] assms(5) by simp
  show ?thesis
    unfolding sweepRest_def
  proof (rule evolves_seq)
    show "evolves P w0 (snd (sweepExpiringSoon E now w))"
      using assms(1,4) ids [OF assms(4)] by (simp add: sweepExpiringSoon_evolves)
  next
    fix n2 w4
    assume w4: "evolves P w0 w4"
    show "evolves P w0 (snd (
       case sweepAbandoned E now w4 of
          (Inl e, w5) \<Rightarrow> (Inl e, w5)
        | (Inr abandonedOrders, w5) \<Rightarrow>
       (case sweepStuck E now w5 of
          (Inl e, w6) \<Rightarrow> (Inl e, w6)
        | (Inr stuckPayments, w6) \<Rightarrow>
            (Inr \<lparr>n_expiredPending = n1,
                  n_expiringSoon = n2,
                  n_abandonedOrders = abandonedOrders,
                  n_stuckPayments = stuckPayments\<rparr>, w6))))"
    proof (rule evolves_seq)
      show "evolves P w0 (snd (sweepAbandoned E now w4))"
        using w4 by (rule sweepAbandoned_evolves)
    next
      fix n3 w5
      assume w5: "evolves P w0 w5"
      have "evolves P w0 (snd (sweepStuck E now w5))"
        using assms(2,3) w5 by (simp add: sweepStuck_evolves)
      then show "evolves P w0 (snd (
         case sweepStuck E now w5 of
            (Inl e, w6) \<Rightarrow> (Inl e, w6)
          | (Inr stuckPayments, w6) \<Rightarrow>
              (Inr \<lparr>n_expiredPending = n1,
                    n_expiringSoon = n2,
                    n_abandonedOrders = n3,
                    n_stuckPayments = stuckPayments\<rparr>, w6)))"
        by (rule evolves_seq) simp
    qed
  qed
qed

lemma monitorPayments_evolves:
  assumes "\<And>e. monitorEffect e \<Longrightarrow> P e" and "distinct (map orderId (paymentOrders w))"
  shows "evolves P w (snd (monitorPayments E w))"
  unfolding monitorPayments_unfold
proof (rule evolves_seq)
  show "evolves P w (snd (connectDB E w))" by (rule evolves.same) simp_all
next
  fix u w1
  assume w1: "evolves P w w1"
  then have w2: "evolves P w (tick w1)" by (rule evolves_same_data) simp_all
  show "evolves P w (snd (
    case sweepExpiredPending E (clock E (steps w1)) (tick w1) of
        (Inl e, w3) \<Rightarrow> (Inl e, w3)
      | (Inr n1, w3) \<Rightarrow> sweepRest E (clock E (steps w1)) n1 w3))"
  proof (rule evolves_seq)
    show "evolves P w (snd (sweepExpiredPending E (clock E (steps w1)) (tick w1)))"
      using assms(1) w2 by (simp add: sweepExpiredPending_evolves)
  next
    fix n1 w3
    assume "evolves P w w3"
    then show "evolves P w (snd (sweepRest E (clock E (steps w1)) n1 w3))"
      using assms by (simp add: sweepRest_evolves)
  qed
qed

lemma evolves_quiet:
  assumes "evolves P w0 v"
  shows "evolves P w0 (snd (connectDB E v))"
    and "evolves P w0 (snd (newDate E v))"
    and "evolves P w0 (tick v)"
    and "evolves P w0 (snd (findOne_shiftId E sid v))"
    and "evolves P w0 (snd (WebhookEvent_create E ev v))"
    and "evolves P w0 (snd (WebhookEvent_findOneAndUpdate E eid f v))"
  using assms by (auto intro: evolves_same_data)

lemma POST_try_evolves: "evolves P w (snd (POST_try E request w))"
  unfolding POST_try_def
  by (auto simp: case_prod_beta Let_def split: sum.splits option.splits
      intro!: updateOrderStatus_evolves evolves_quiet evolves_refl)

lemma POST_evolves:
  assumes "\<And>e. P (WebhookError e)"
  shows "evolves P w (snd (POST E request w))"
proof (cases "POST_try E request w")
  case (Pair r w')
  then have w': "evolves P w w'" using POST_try_evolves [of P w E request] by simp
  show ?thesis
  proof (cases r)
    case (Inl e)
    from w' have "evolves P w (emit (WebhookError e) w')"
      using assms by (rule evolves.emitted) simp_all
    then show ?thesis using Pair Inl by (simp add: POST_def)
  next
    case (Inr res)
    then show ?thesis using Pair w' by (simp add: POST_def)
  qed
qed

lemma perform_evolves:
  assumes "distinct (map orderId (paymentOrders w))"
  shows "evolves (\<lambda>e. \<not> isCompletion e) w (perform E x w)"
proof (cases x)
  case (Update oid s m)
  then show ?thesis by (simp add: updateOrderStatus_evolves evolves_refl)
next
  case (Poll oid)
  then show ?thesis by (simp add: pollShiftStatus_evolves evolves_refl)
next
  case (Webhook request)
  then show ?thesis by (simp add: POST_evolves)
next
  case Sweep
  have "\<not> isCompletion e" if "monitorEffect e" for e
    using that by (cases e) simp_all
  then show ?thesis using Sweep assms by (simp add: monitorPayments_evolves)
qed

lemma performAll_evolves:
  "distinct (map orderId (paymentOrders w)) \<Longrightarrow>
   evolves (\<lambda>e. \<not> isCompletion e) w (performAll E xs w)"
proof (induction xs arbitrary: w)
  case Nil
  then show ?case by (simp add: evolves_refl)
next
  case (Cons x xs)
  have step: "evolves (\<lambda>e. \<not> isCompletion e) w (perform E x w)"
    using Cons.prems by (rule perform_evolves)
  then have "distinct (map orderId (paymentOrders (perform E x w)))"
    using Cons.prems evolves_ids by fastforce
  then have "evolves (\<lambda>e. \<not> isCompletion e) (perform E x w) (performAll E xs (perform E x w))"
    by (rule Cons.IH)
  then show ?case using step by (simp add: evolves_trans)
qed

lemma fresh_consistent:
  assumes "distinct (map orderId ds)"
    and "\<forall>d\<in>set ds. status d = pending \<and> completedAt d = None \<and>
           (\<exists>t n. statusHistory d = [\<lparr>h_status = pending, h_timestamp = t, h_note = n\<rparr>])"
  shows "consistent \<lparr>paymentOrders = ds, webhookEvents = evs, trace = [], steps = k\<rparr>"
  using assms by (auto simp: consistent_def list_all_iff completedOnce_def completions_def)

text \<open>
  C8. From a consistent collection (unique order ids, every order completed once; in
  particular from freshly created orders) and after any run of reconciler calls, polls,
  webhook deliveries and sweeps, in any environment: every order has one \<open>completed\<close>
  history entry if it is completed and none otherwise, the completion hook ran as many
  times for it, and its completion time is set exactly when it is completed. An order
  that is completed stays in the collection as the same document through any later run,
  so the completion time, once set, is never written again.
\<close>

theorem completed_exactly_once:
  assumes "consistent w"
  shows "distinct (map orderId (paymentOrders (performAll E ops w))) \<and>
         list_all (\<lambda>d. completions d = (if status d = completed then 1 else 0) \<and>
                       hooks (trace (performAll E ops w)) (orderId d) = completions d \<and>
                       (completedAt d \<noteq> None) = (status d = completed))
           (paymentOrders (performAll E ops w)) \<and>
         list_all (\<lambda>d. status d = completed \<longrightarrow>
                       d \<in> set (paymentOrders (performAll E later (performAll E ops w))))
           (paymentOrders (performAll E ops w))"
proof -
  let ?P = "\<lambda>e. \<not> isCompletion e"
  have dist: "distinct (map orderId (paymentOrders w))"
    using assms by (simp add: consistent_def)
  have ev: "evolves ?P w (performAll E ops w)"
    using dist by (rule performAll_evolves)
  have "\<not> ?P (OrderCompleted oid)" for oid by simp
  with ev have c: "consistent (performAll E ops w)"
    using assms by (rule evolves_consistent)
  then have dist': "distinct (map orderId (paymentOrders (performAll E ops w)))"
    by (simp add: consistent_def)
  then have "evolves ?P (performAll E ops w) (performAll E later (performAll E ops w))"
    by (rule performAll_evolves)
  then have "d \<in> set (paymentOrders (performAll E later (performAll E ops w)))"
    if "d \<in> set (paymentOrders (performAll E ops w))" "status d = completed" for d
    using that by (auto intro: evolves_frozen simp: inTerminalState_def)
  with c show ?thesis
    by (simp add: consistent_def completedOnce_def list_all_iff)
qed

lemmas monitor_defs = monitorPayments_def sweepExpiredPending_def sweepExpiringSoon_def
  sweepAbandoned_def sweepStuck_def find_orders_def expiredPendingQuery_def
  expiringSoonQuery_def abandonedQuery_def stuckQuery_def expiredNote_def abandonedNote_def

text \<open>
  A new order receives \<open>settled\<close> twice by webhook, then a direct \<open>completed\<close>, then a
  sweep: one completion.
\<close>

theorem completed_exactly_once_witness:
  "consistent (world_of [order1]) \<and>
   map status (paymentOrders (performAll env0
     [Webhook (request_of (Some ''shift_1'') (Some ''settled'')),
      Webhook (request_of (Some ''shift_1'') (Some ''settled'')),
      Update ''ord_1'' completed None, Sweep] (world_of [order1]))) = [completed] \<and>
   map completions (paymentOrders (performAll env0
     [Webhook (request_of (Some ''shift_1'') (Some ''settled'')),
      Webhook (request_of (Some ''shift_1'') (Some ''settled'')),
      Update ''ord_1'' completed None, Sweep] (world_of [order1]))) = [1] \<and>
   hooks (trace (performAll env0
     [Webhook (request_of (Some ''shift_1'') (Some ''settled'')),
      Webhook (request_of (Some ''shift_1'') (Some ''settled'')),
      Update ''ord_1'' completed None, Sweep] (world_of [order1]))) ''ord_1'' = 1"
  using completed_exactly_once [of "world_of [order1]" env0
     "[Webhook (request_of (Some ''shift_1'') (Some ''settled'')),
      Webhook (request_of (Some ''shift_1'') (Some ''settled'')),
      Update ''ord_1'' completed None, Sweep]" "[]"]
  by (simp add: consistent_def completedOnce_def completions_def hooks_def
      webhook_defs reconciler_defs sample_defs request_of_def monitor_defs
      statusMap_at_def statusMap_def show_status_def newWebhookEvent_def)

section \<open>The sweep\<close>


lemma updateOrderStatus_succeeds:
  assumes "\<forall>n. \<not> dbFault E n" and "find (\<lambda>y. orderId y = oid) (paymentOrders w) = Some d"
  shows "\<exists>d'. fst (updateOrderStatus E oid s m w) = Inr d'"
  using assms by (simp add: reconciler_defs split: prod.splits)

lemma updateOrderStatus_applied:
  assumes "\<forall>n. \<not> dbFault E n" and "find (\<lambda>y. orderId y = oid) (paymentOrders w) = Some d"
    and "\<not> inTerminalState d"
  shows "\<exists>t1 t2 t3 w'.
    updateOrderStatus E oid s m w = (Inr ((assignStatus s m t1 t2 d)\<lparr>updatedAt := t3\<rparr>), w') \<and>
    paymentOrders w' = replaceOrder ((assignStatus s m t1 t2 d)\<lparr>updatedAt := t3\<rparr>) (paymentOrders w) \<and>
    trace w' = trace w @ (if s = completed then [OrderCompleted oid] else [])"
proof (cases E oid s m w rule: updateOrderStatus_cases)
  case (failed e)
  then show ?thesis using updateOrderStatus_succeeds [OF assms(1,2), of s m] by simp
next
  case (noop d0)
  then show ?thesis using assms by simp
next
  case (applied d0 t1 t2 t3)
  then have "d0 = d" using assms(2) by simp
  with applied have "updateOrderStatus E oid s m w =
      (Inr ((assignStatus s m t1 t2 d)\<lparr>updatedAt := t3\<rparr>), snd (updateOrderStatus E oid s m w))"
    by (cases "updateOrderStatus E oid s m w") simp
  with applied \<open>d0 = d\<close> show ?thesis by blast
qed




















section \<open>Redelivery\<close>

lemma updateOrderStatus_guarded_orders:
  "find (\<lambda>y. orderId y = oid) (paymentOrders v) = Some d0 \<Longrightarrow> inTerminalState d0 \<Longrightarrow>
   paymentOrders (snd (updateOrderStatus E oid s m v)) = paymentOrders v"
  by (simp add: updateOrderStatus_guarded tick_def)

text \<open>Where the handler's writes to the order collection come from.\<close>

lemma POST_orders:
  "paymentOrders (snd (POST E r w)) = paymentOrders w \<or>
   (\<exists>body sid d s v. req_body r = Some body \<and> body_id body = Some sid \<and> sid \<noteq> [] \<and>
      find (\<lambda>y. shiftId y = Some sid) (paymentOrders w) = Some d \<and>
      statusMap_at (body_status body) = Some s \<and> paymentOrders v = paymentOrders w \<and>
      paymentOrders (snd (POST E r w)) =
        paymentOrders (snd (updateOrderStatus E (orderId d) s (webhookMetadata body) v)))"
proof (cases "req_body r")
  case None
  then show ?thesis by (simp add: POST_def POST_try_def case_prod_beta split: sum.splits)
next
  case (Some body)
  show ?thesis
  proof (cases "body_id body")
    case None
    with Some show ?thesis by (simp add: POST_def POST_try_def case_prod_beta split: sum.splits)
  next
    case sid: (Some sid)
    show ?thesis
    proof (cases "sid = []")
      case True
      with Some sid show ?thesis
        by (simp add: POST_def POST_try_def case_prod_beta split: sum.splits)
    next
      case False
      let ?v = "snd (findOne_shiftId E sid (snd (WebhookEvent_create E
          (newWebhookEvent (nanoid E (steps (snd (connectDB E w)))) sid body (req_headers r)
             (fst (newDate E (tick (snd (connectDB E w))))))
          (snd (newDate E (tick (snd (connectDB E w))))))))"
      have v: "paymentOrders ?v = paymentOrders w" by simp
      have "paymentOrders (snd (POST E r w)) = paymentOrders w \<or>
        (\<exists>d s. find (\<lambda>y. shiftId y = Some sid) (paymentOrders w) = Some d \<and>
          statusMap_at (body_status body) = Some s \<and>
          paymentOrders (snd (POST E r w)) =
            paymentOrders (snd (updateOrderStatus E (orderId d) s (webhookMetadata body) ?v)))"
        using Some sid False
        by (auto simp: POST_def POST_try_def case_prod_beta Let_def webhookMetadata_def
            findOne_shiftId_def
            split: sum.splits option.splits if_splits)
      with Some sid False v show ?thesis by blast
    qed
  qed
qed

lemma find_mem: "find p xs = Some d \<Longrightarrow> d \<in> set xs"
  by (auto simp: find_Some_iff)

lemma find_shiftId_replace:
  "distinct (map orderId xs) \<Longrightarrow> find (\<lambda>y. shiftId y = Some sid) xs = Some d \<Longrightarrow>
   orderId d' = orderId d \<Longrightarrow> shiftId d' = shiftId d \<Longrightarrow>
   find (\<lambda>y. shiftId y = Some sid) (replaceOrder d' xs) = Some d'"
proof (induction xs)
  case Nil
  then show ?case by simp
next
  case (Cons x xs)
  show ?case
  proof (cases "shiftId x = Some sid")
    case True
    with Cons.prems show ?thesis by simp
  next
    case False
    with Cons.prems have tail: "find (\<lambda>y. shiftId y = Some sid) xs = Some d" by simp
    then have "d \<in> set xs" by (rule find_mem)
    with Cons.prems(1) have "orderId x \<noteq> orderId d" by (auto simp: image_iff)
    with False Cons tail show ?thesis by simp
  qed
qed

lemma map_replaceOrder:
  "find (\<lambda>y. orderId y = orderId d') xs = Some d0 \<Longrightarrow> f d' = f d0 \<Longrightarrow>
   map f (replaceOrder d' xs) = map f xs"
  by (induction xs) (auto split: if_splits)

lemma POST_noop:
  assumes "distinct (map orderId (paymentOrders w))"
    and "req_body r = Some body" and "body_id body = Some sid"
    and "settledFor sid (body_status body) (paymentOrders w)"
  shows "paymentOrders (snd (POST E r w)) = paymentOrders w"
  using POST_orders [of E r w]
proof
  assume "paymentOrders (snd (POST E r w)) = paymentOrders w"
  then show ?thesis .
next
  assume "\<exists>body sid d s v. req_body r = Some body \<and> body_id body = Some sid \<and> sid \<noteq> [] \<and>
      find (\<lambda>y. shiftId y = Some sid) (paymentOrders w) = Some d \<and>
      statusMap_at (body_status body) = Some s \<and> paymentOrders v = paymentOrders w \<and>
      paymentOrders (snd (POST E r w)) =
        paymentOrders (snd (updateOrderStatus E (orderId d) s (webhookMetadata body) v))"
  then obtain d s v where ne: "sid \<noteq> []"
    and found: "find (\<lambda>y. shiftId y = Some sid) (paymentOrders w) = Some d"
    and mapped: "statusMap_at (body_status body) = Some s"
    and v: "paymentOrders v = paymentOrders w"
    and post: "paymentOrders (snd (POST E r w)) =
        paymentOrders (snd (updateOrderStatus E (orderId d) s (webhookMetadata body) v))"
    using assms(2,3) by auto
  from assms(4) ne found mapped have closed: "inTerminalState d"
    by (simp add: settledFor_def)
  have "d \<in> set (paymentOrders w)" using found by (rule find_mem)
  then have "find (\<lambda>y. orderId y = orderId d) (paymentOrders v) = Some d"
    using assms(1) v by (simp add: find_in_distinct)
  then show ?thesis
    using closed post v by (simp add: updateOrderStatus_guarded_orders)
qed

lemma POST_reconciles:
  assumes "\<forall>n. \<not> dbFault E n" and "distinct (map orderId (paymentOrders w))"
    and "req_body r = Some body" and "body_id body = Some sid" and "sid \<noteq> []"
    and "find (\<lambda>y. shiftId y = Some sid) (paymentOrders w) = Some d"
    and "statusMap_at (body_status body) = Some s" and "\<not> inTerminalState d"
  shows "\<exists>t1 t2 t3. paymentOrders (snd (POST E r w)) =
     replaceOrder ((assignStatus s (webhookMetadata body) t1 t2 d)\<lparr>updatedAt := t3\<rparr>) (paymentOrders w)"
proof -
  let ?v = "snd (findOne_shiftId E sid (snd (WebhookEvent_create E
      (newWebhookEvent (nanoid E (steps (snd (connectDB E w)))) sid body (req_headers r)
         (fst (newDate E (tick (snd (connectDB E w))))))
      (snd (newDate E (tick (snd (connectDB E w))))))))"
  have v: "paymentOrders ?v = paymentOrders w" by simp
  have post: "paymentOrders (snd (POST E r w)) =
      paymentOrders (snd (updateOrderStatus E (orderId d) s (webhookMetadata body) ?v))"
    using assms(1,3-7)
    by (auto simp: POST_def POST_try_def case_prod_beta Let_def webhookMetadata_def
        findOne_shiftId_def connectDB_def WebhookEvent_create_def
        split: sum.splits option.splits if_splits)
  have "d \<in> set (paymentOrders w)" using assms(6) by (rule find_mem)
  then have "find (\<lambda>y. orderId y = orderId d) (paymentOrders ?v) = Some d"
    using assms(2) v by (simp add: find_in_distinct)
  from updateOrderStatus_applied [OF assms(1) this assms(8), of s "webhookMetadata body"]
  obtain t1 t2 t3 w' where
    "updateOrderStatus E (orderId d) s (webhookMetadata body) ?v =
       (Inr ((assignStatus s (webhookMetadata body) t1 t2 d)\<lparr>updatedAt := t3\<rparr>), w')"
    "paymentOrders w' =
       replaceOrder ((assignStatus s (webhookMetadata body) t1 t2 d)\<lparr>updatedAt := t3\<rparr>) (paymentOrders ?v)"
    by (elim exE conjE)
  then show ?thesis using post by auto
qed

lemma assignStatus_shiftId [simp]: "shiftId (assignStatus s m t1 t2 d) = shiftId d"
  by (simp add: assignStatus_def Let_def)

lemma assignStatus_status [simp]: "status (assignStatus s m t1 t2 d) = s"
  by (simp add: assignStatus_def Let_def)

lemma first_settles:
  assumes "\<forall>n. \<not> dbFault E n" and "distinct (map orderId (paymentOrders w))"
    and "req_body r = Some body" and "body_id body = Some sid"
    and "statusMap_at (body_status body) \<in> {None, Some completed, Some refunded, Some expired} \<or>
         (\<forall>d. find (\<lambda>y. shiftId y = Some sid) (paymentOrders w) = Some d \<longrightarrow> inTerminalState d)"
  shows "settledFor sid (body_status body) (paymentOrders (snd (POST E r w)))"
proof (cases "settledFor sid (body_status body) (paymentOrders w)")
  case True
  then show ?thesis using POST_noop [OF assms(2-4) True, of E] by simp
next
  case False
  then obtain s d where mapped: "statusMap_at (body_status body) = Some s" and ne: "sid \<noteq> []"
    and found: "find (\<lambda>y. shiftId y = Some sid) (paymentOrders w) = Some d"
    and open_: "\<not> inTerminalState d"
    by (auto simp: settledFor_def split: option.splits)
  from assms(5) mapped found open_ have s: "s = completed \<or> s = refunded \<or> s = expired"
    by auto
  from POST_reconciles [OF assms(1-4) ne found mapped open_] obtain t1 t2 t3 where
    orders: "paymentOrders (snd (POST E r w)) =
      replaceOrder ((assignStatus s (webhookMetadata body) t1 t2 d)\<lparr>updatedAt := t3\<rparr>) (paymentOrders w)"
    by blast
  let ?d' = "(assignStatus s (webhookMetadata body) t1 t2 d)\<lparr>updatedAt := t3\<rparr>"
  have "find (\<lambda>y. shiftId y = Some sid) (replaceOrder ?d' (paymentOrders w)) = Some ?d'"
    using assms(2) found by (rule find_shiftId_replace) simp_all
  moreover have "inTerminalState ?d'" using s by (auto simp: inTerminalState_def)
  ultimately show ?thesis by (simp add: settledFor_def orders)
qed

lemma repeat_settled:
  assumes "req_body r = Some body" and "body_id body = Some sid"
  shows "distinct (map orderId (paymentOrders w)) \<Longrightarrow>
         settledFor sid (body_status body) (paymentOrders w) \<Longrightarrow>
         paymentOrders (performAll E (replicate n (Webhook r)) w) = paymentOrders w"
proof (induction n arbitrary: w)
  case 0
  then show ?case by simp
next
  case (Suc n)
  have same: "paymentOrders (snd (POST E r w)) = paymentOrders w"
    using Suc.prems(1) assms Suc.prems(2) by (rule POST_noop)
  then have "paymentOrders (performAll E (replicate n (Webhook r)) (snd (POST E r w))) =
      paymentOrders (snd (POST E r w))"
    using Suc.prems by (intro Suc.IH) simp_all
  with same show ?case by simp
qed

lemma assignStatus_absorbed:
  assumes "\<not> inTerminalState d" and "status d = s"
    and "truthy (body_depositHash body) \<longrightarrow> depositTxHash d = body_depositHash body"
    and "truthy (body_settleHash body) \<longrightarrow> settleTxHash d = body_settleHash body"
  shows "outcome ((assignStatus s (webhookMetadata body) t1 t2 d)\<lparr>updatedAt := t3\<rparr>) = outcome d"
  using assms
  by (auto simp: outcome_def assignStatus_def webhookMetadata_def md_get_def Let_def
      inTerminalState_def)

lemma assignStatus_absorbs:
  "truthy (body_depositHash body) \<longrightarrow>
     depositTxHash ((assignStatus s (webhookMetadata body) t1 t2 d)\<lparr>updatedAt := t3\<rparr>)
       = body_depositHash body"
  "truthy (body_settleHash body) \<longrightarrow>
     settleTxHash ((assignStatus s (webhookMetadata body) t1 t2 d)\<lparr>updatedAt := t3\<rparr>)
       = body_settleHash body"
  by (auto simp: assignStatus_def webhookMetadata_def md_get_def Let_def)

lemma POST_absorbed:
  assumes "distinct (map orderId (paymentOrders w))" and "req_body r = Some body"
    and "absorbed body (paymentOrders w)"
  shows "map outcome (paymentOrders (snd (POST E r w))) = map outcome (paymentOrders w) \<and>
         absorbed body (paymentOrders (snd (POST E r w)))"
  using POST_orders [of E r w]
proof
  assume "paymentOrders (snd (POST E r w)) = paymentOrders w"
  then show ?thesis using assms(3) by simp
next
  assume "\<exists>body sid d s v. req_body r = Some body \<and> body_id body = Some sid \<and> sid \<noteq> [] \<and>
      find (\<lambda>y. shiftId y = Some sid) (paymentOrders w) = Some d \<and>
      statusMap_at (body_status body) = Some s \<and> paymentOrders v = paymentOrders w \<and>
      paymentOrders (snd (POST E r w)) =
        paymentOrders (snd (updateOrderStatus E (orderId d) s (webhookMetadata body) v))"
  then obtain sid d s v where sid: "body_id body = Some sid" and ne: "sid \<noteq> []"
    and found: "find (\<lambda>y. shiftId y = Some sid) (paymentOrders w) = Some d"
    and mapped: "statusMap_at (body_status body) = Some s"
    and v: "paymentOrders v = paymentOrders w"
    and post: "paymentOrders (snd (POST E r w)) =
        paymentOrders (snd (updateOrderStatus E (orderId d) s (webhookMetadata body) v))"
    using assms(2) by auto
  have "d \<in> set (paymentOrders w)" using found by (rule find_mem)
  then have byId: "find (\<lambda>y. orderId y = orderId d) (paymentOrders v) = Some d"
    using assms(1) v by (simp add: find_in_distinct)
  show ?thesis
  proof (cases E "orderId d" s "webhookMetadata body" v rule: updateOrderStatus_cases)
    case (failed e)
    then show ?thesis using assms(3) post v by simp
  next
    case (noop d0)
    then show ?thesis using assms(3) post v by simp
  next
    case (applied d0 t1 t2 t3)
    let ?d' = "(assignStatus s (webhookMetadata body) t1 t2 d)\<lparr>updatedAt := t3\<rparr>"
    have d0: "d0 = d" using applied(1) byId by simp
    have open_: "\<not> inTerminalState d" using applied(2) d0 by simp
    have orders: "paymentOrders (snd (POST E r w)) = replaceOrder ?d' (paymentOrders w)"
      using applied(4) post v d0 by simp
    from assms(3) sid ne mapped found open_
    have st: "status d = s"
      and h1: "truthy (body_depositHash body) \<longrightarrow> depositTxHash d = body_depositHash body"
      and h2: "truthy (body_settleHash body) \<longrightarrow> settleTxHash d = body_settleHash body"
      by (simp_all add: absorbed_def)
    have "outcome ?d' = outcome d"
      using open_ st h1 h2 by (rule assignStatus_absorbed)
    moreover have "find (\<lambda>y. orderId y = orderId ?d') (paymentOrders w) = Some d"
      using byId v by simp
    ultimately have 1: "map outcome (replaceOrder ?d' (paymentOrders w)) = map outcome (paymentOrders w)"
      by (intro map_replaceOrder) simp_all
    have "find (\<lambda>y. shiftId y = Some sid) (replaceOrder ?d' (paymentOrders w)) = Some ?d'"
      using assms(1) found by (rule find_shiftId_replace) simp_all
    then have 2: "absorbed body (replaceOrder ?d' (paymentOrders w))"
      using sid mapped assignStatus_absorbs [where body = body and s = s and d = d]
      by (simp add: absorbed_def)
    from 1 2 show ?thesis by (simp add: orders)
  qed
qed

lemma first_absorbs:
  assumes "\<forall>n. \<not> dbFault E n" and "distinct (map orderId (paymentOrders w))"
    and "req_body r = Some body"
  shows "absorbed body (paymentOrders (snd (POST E r w)))"
proof (cases "body_id body")
  case None
  then show ?thesis by (simp add: absorbed_def)
next
  case (Some sid)
  show ?thesis
  proof (cases "settledFor sid (body_status body) (paymentOrders w)")
    case True
    then have "paymentOrders (snd (POST E r w)) = paymentOrders w"
      using assms(2,3) Some by (intro POST_noop) simp_all
    then show ?thesis using True Some
      by (auto simp: absorbed_def settledFor_def split: option.splits)
  next
    case False
    then obtain s d where mapped: "statusMap_at (body_status body) = Some s" and ne: "sid \<noteq> []"
      and found: "find (\<lambda>y. shiftId y = Some sid) (paymentOrders w) = Some d"
      and open_: "\<not> inTerminalState d"
      by (auto simp: settledFor_def split: option.splits)
    from POST_reconciles [OF assms(1-3) Some ne found mapped open_] obtain t1 t2 t3 where
      orders: "paymentOrders (snd (POST E r w)) =
        replaceOrder ((assignStatus s (webhookMetadata body) t1 t2 d)\<lparr>updatedAt := t3\<rparr>) (paymentOrders w)"
      by blast
    let ?d' = "(assignStatus s (webhookMetadata body) t1 t2 d)\<lparr>updatedAt := t3\<rparr>"
    have "find (\<lambda>y. shiftId y = Some sid) (replaceOrder ?d' (paymentOrders w)) = Some ?d'"
      using assms(2) found by (rule find_shiftId_replace) simp_all
    then show ?thesis
      using Some mapped assignStatus_absorbs [where body = body and s = s and d = d]
      by (simp add: absorbed_def orders)
  qed
qed

lemma repeat_absorbed:
  assumes "req_body r = Some body"
  shows "distinct (map orderId (paymentOrders w)) \<Longrightarrow> absorbed body (paymentOrders w) \<Longrightarrow>
         map outcome (paymentOrders (performAll E (replicate n (Webhook r)) w)) =
           map outcome (paymentOrders w)"
proof (induction n arbitrary: w)
  case 0
  then show ?case by simp
next
  case (Suc n)
  from POST_absorbed [OF Suc.prems(1) assms Suc.prems(2), of E]
  have same: "map outcome (paymentOrders (snd (POST E r w))) = map outcome (paymentOrders w)"
    and ab: "absorbed body (paymentOrders (snd (POST E r w)))" by simp_all
  have "evolves (\<lambda>e. True) w (snd (POST E r w))" by (simp add: POST_evolves)
  then have "distinct (map orderId (paymentOrders (snd (POST E r w))))"
    using Suc.prems(1) evolves_ids by fastforce
  then have "map outcome (paymentOrders (performAll E (replicate n (Webhook r)) (snd (POST E r w)))) =
      map outcome (paymentOrders (snd (POST E r w)))"
    using ab by (rule Suc.IH)
  with same show ?case by simp
qed

text \<open>
  C2 (as amended). With a working database and unique order ids, delivering one payload
  \<open>n + 1\<close> times leaves every order with the same status, transaction hashes and
  completion time as delivering it once. The whole order collection, histories included,
  is the same after \<open>n + 1\<close> deliveries as after one when the payload's status is not in
  the table or maps to \<open>completed\<close>, \<open>refunded\<close> or \<open>expired\<close>, or when the order that
  carries the swap id is absent or already in a guarded state. For the other statuses
  every delivery appends a history entry, as shown below.
\<close>

theorem redelivery_is_idempotent:
  assumes "\<forall>n. \<not> dbFault E n" and "distinct (map orderId (paymentOrders w))"
    and "req_body r = Some body" and "body_id body = Some sid"
  shows "(statusMap_at (body_status body) \<in> {None, Some completed, Some refunded, Some expired} \<or>
          (\<forall>d. find (\<lambda>y. shiftId y = Some sid) (paymentOrders w) = Some d \<longrightarrow> inTerminalState d)
          \<longrightarrow> paymentOrders (performAll E (replicate (Suc n) (Webhook r)) w) =
              paymentOrders (perform E (Webhook r) w)) \<and>
         map outcome (paymentOrders (performAll E (replicate (Suc n) (Webhook r)) w)) =
           map outcome (paymentOrders (perform E (Webhook r) w))"
proof -
  have "evolves (\<lambda>e. True) w (snd (POST E r w))" by (simp add: POST_evolves)
  then have dist: "distinct (map orderId (paymentOrders (snd (POST E r w))))"
    using assms(2) evolves_ids by fastforce
  have a: "paymentOrders (performAll E (replicate (Suc n) (Webhook r)) w) =
              paymentOrders (perform E (Webhook r) w)"
    if "statusMap_at (body_status body) \<in> {None, Some completed, Some refunded, Some expired} \<or>
          (\<forall>d. find (\<lambda>y. shiftId y = Some sid) (paymentOrders w) = Some d \<longrightarrow> inTerminalState d)"
  proof -
    have "settledFor sid (body_status body) (paymentOrders (snd (POST E r w)))"
      using assms that by (rule first_settles)
    with assms(3,4) dist show ?thesis by (simp add: repeat_settled)
  qed
  have "absorbed body (paymentOrders (snd (POST E r w)))"
    using assms(1-3) by (rule first_absorbs)
  with assms(3) dist have b: "map outcome (paymentOrders (performAll E (replicate (Suc n) (Webhook r)) w)) =
           map outcome (paymentOrders (perform E (Webhook r) w))"
    by (simp add: repeat_absorbed)
  from a b show ?thesis by blast
qed

text \<open>
  \<open>settled\<close> delivered three times to a new order.
\<close>

theorem redelivery_is_idempotent_witness:
  "paymentOrders (performAll env0
      (replicate (Suc (Suc (Suc 0))) (Webhook (request_of (Some ''shift_1'') (Some ''settled''))))
      (world_of [order1])) =
   paymentOrders (perform env0 (Webhook (request_of (Some ''shift_1'') (Some ''settled'')))
      (world_of [order1])) \<and>
   map outcome (paymentOrders (performAll env0
      (replicate (Suc (Suc (Suc 0))) (Webhook (request_of (Some ''shift_1'') (Some ''settled''))))
      (world_of [order1]))) = [(completed, None, None, Some 700008)]"
  using redelivery_is_idempotent [of env0 "world_of [order1]"
      "request_of (Some ''shift_1'') (Some ''settled'')"
      "\<lparr>body_id = Some ''shift_1'', body_status = Some ''settled'',
        body_depositHash = None, body_settleHash = None\<rparr>" "''shift_1''" "Suc (Suc 0)"]
  by (simp add: webhook_defs reconciler_defs sample_defs request_of_def outcome_def
      statusMap_at_def statusMap_def show_status_def newWebhookEvent_def)

text \<open>
  C2 as stated has the same \<open>statusHistory\<close> after one and after several deliveries.
  \<open>processing\<close> delivered once leaves two entries, delivered twice three.
\<close>

theorem redelivery_appends_history:
  "map (length \<circ> statusHistory) (paymentOrders (performAll env0
      [Webhook (request_of (Some ''shift_1'') (Some ''processing''))] (world_of [order1]))) = [2] \<and>
   map (length \<circ> statusHistory) (paymentOrders (performAll env0
      [Webhook (request_of (Some ''shift_1'') (Some ''processing'')),
       Webhook (request_of (Some ''shift_1'') (Some ''processing''))] (world_of [order1]))) = [3]"
  by (simp add: webhook_defs reconciler_defs sample_defs request_of_def
      statusMap_at_def statusMap_def show_status_def newWebhookEvent_def)

end
